theory Spec2Isabelle
  imports Main "HOL-Library.AList"
begin

section \<open>Errors and values\<close>

text \<open>
  Exceptions are values.  \<open>ValueError\<close> and \<open>KeyError\<close> are the Python built-ins that
  \<open>convert.py\<close> raises (directly, through \<open>int\<close>, or through a dictionary lookup);
  \<open>ParseError\<close>, \<open>ValidationError\<close> and \<open>TypeError\<close> are the taxonomy of the
  specification, used by the base classes of \<open>easybuild.tools.convert\<close>;
  \<open>ExternalError\<close> stands for whatever the external version-operator parsers raise.
\<close>

datatype error = ParseError | ValidationError | TypeError | ValueError | KeyError | ExternalError

text \<open>
  A dictionary is an association list with distinct keys in insertion order; assignment
  \<open>res[k] = v\<close> is \<open>AList.update k v res\<close> (replace in place, or append), lookup is
  \<open>map_of\<close>.  Python compares dictionaries by content, not by order: \<open>dict_eq\<close>
  compares the two lookups on every key of either dictionary.
  A Patch dictionary holds strings, and an integer under \<open>level\<close>.
\<close>

datatype pval = PStr string | PInt int

definition dict_eq :: "('k \<times> 'v) list \<Rightarrow> ('k \<times> 'v) list \<Rightarrow> bool" where
  "dict_eq x y = list_all (\<lambda>k. map_of x k = map_of y k) (map fst x @ map fst y)"

section \<open>Python built-ins: \<open>int\<close> and \<open>str\<close> on integers\<close>

definition is_digit :: "char \<Rightarrow> bool" where
  "is_digit c = (48 \<le> (of_char c :: nat) \<and> (of_char c :: nat) \<le> 57)"

definition digit_val :: "char \<Rightarrow> int" where
  "digit_val c = int (of_char c) - 48"

text \<open>
  A string is a sequence of code points below 256.  The characters \<open>int\<close> strips from
  both ends of such a string: tab, line feed, vertical tab, form feed, carriage return
  (9 to 13), space (32), next line (133) and no-break space (160).  The separators 28 to
  31 are not stripped.  The only decimal digits below 256 are \<open>0\<close> to \<open>9\<close>.  The
  interpreter's limit on the number of digits of an integer string is not modelled.
\<close>

definition is_space :: "char \<Rightarrow> bool" where
  "is_space c = (if (of_char c :: nat) < 9 then False
                 else if (of_char c :: nat) \<le> 13 then True
                 else if (of_char c :: nat) = 32 then True
                 else if (of_char c :: nat) = 133 then True
                 else (of_char c :: nat) = 160)"

definition py_strip :: "string \<Rightarrow> string" where
  "py_strip s = rev (dropWhile is_space (rev (dropWhile is_space s)))"

text \<open>Digits, with single underscores allowed between two digits.\<close>

fun digit_groups :: "string \<Rightarrow> bool" where
  "digit_groups [] = False"
| "digit_groups [c] = is_digit c"
| "digit_groups (c # d # cs) =
     (if is_digit c then (if d = CHR ''_'' then digit_groups cs else digit_groups (d # cs))
      else False)"

definition digits_value :: "string \<Rightarrow> int" where
  "digits_value s = foldl (\<lambda>a c. 10 * a + digit_val c) 0 (filter is_digit s)"

text \<open>\<open>int(s)\<close> for a string: surrounding whitespace, an optional sign, decimal digits;
  anything else raises \<open>ValueError\<close>.\<close>

definition py_int :: "string \<Rightarrow> error + int" where
  "py_int s =
     (case py_strip s of
        [] \<Rightarrow> Inl ValueError
      | c # cs \<Rightarrow>
          if c = CHR ''-'' then (if digit_groups cs then Inr (- digits_value cs) else Inl ValueError)
          else if c = CHR ''+'' then (if digit_groups cs then Inr (digits_value cs) else Inl ValueError)
          else if digit_groups (c # cs) then Inr (digits_value (c # cs))
          else Inl ValueError)"

fun py_int_val :: "pval \<Rightarrow> error + int" where
  "py_int_val (PStr s) = py_int s"
| "py_int_val (PInt n) = Inr n"

fun nat_digits :: "nat \<Rightarrow> string" where
  "nat_digits n =
     (if n < 10 then [char_of (48 + n)] else nat_digits (n div 10) @ [char_of (48 + n mod 10)])"

declare nat_digits.simps [simp del]

definition py_str_int :: "int \<Rightarrow> string" where
  "py_str_int n = (if n < 0 then CHR ''-'' # nat_digits (nat (- n)) else nat_digits (nat n))"

fun py_str :: "pval \<Rightarrow> string" where
  "py_str (PStr s) = s"
| "py_str (PInt n) = py_str_int n"

section \<open>The base classes of \<open>easybuild.tools.convert\<close>\<close>

text \<open>
  Modelled from the spec: \<open>Convert._split_string\<close>, the shared splitting helper of the
  module \<open>easybuild.tools.convert\<close>, which is not among the sources.  The specification
  says "split the string on" the separator; no escaping context is defined by any grammar
  here, so every occurrence of the separator delimits a field, as Python's own
  \<open>txt.split(sep)\<close> does: \<open>n\<close> separators give \<open>n + 1\<close> segments, and the empty string is one
  empty segment.
\<close>

fun split_string :: "char \<Rightarrow> string \<Rightarrow> string list" where
  "split_string sep [] = [[]]"
| "split_string sep (c # cs) =
     (if c = sep then [] # split_string sep cs
      else (case split_string sep cs of [] \<Rightarrow> [[c]] | x # xs \<Rightarrow> (c # x) # xs))"

text \<open>Python's \<open>sep.join(xs)\<close>.\<close>

fun join_string :: "char \<Rightarrow> string list \<Rightarrow> string" where
  "join_string sep [] = []"
| "join_string sep [x] = x"
| "join_string sep (x # y # ys) = x @ sep # join_string sep (y # ys)"

definition SEPARATOR_DICT :: char where "SEPARATOR_DICT = CHR '';''"
definition SEPARATOR_KEY_VALUE :: char where "SEPARATOR_KEY_VALUE = CHR '':''"
definition SEPARATOR_LIST :: char where "SEPARATOR_LIST = CHR '',''"

text \<open>
  Modelled from the spec: \<open>DictOfStrings._from_string\<close> (section 4.2), not among the
  sources.  Step 2: the leading segments without a colon, at most one per declared keyless
  entry, are assigned to the keyless keys in declared order.
\<close>

fun positional :: "string list \<Rightarrow> string list \<Rightarrow> (string \<times> string) list \<times> string list" where
  "positional (k # ks) (seg # segs) =
     (if SEPARATOR_KEY_VALUE \<in> set seg then ([], seg # segs)
      else (case positional ks segs of (ps, rest) \<Rightarrow> ((k, seg) # ps, rest)))"
| "positional ks segs = ([], segs)"

text \<open>Modelled from the spec: step 3 of \<open>DictOfStrings._from_string\<close>.  Every remaining
  segment is split on its first colon; a segment without a colon is a \<open>ParseError\<close>.\<close>

definition split_key_value :: "string \<Rightarrow> string \<times> string" where
  "split_key_value seg =
     (takeWhile (\<lambda>c. c \<noteq> SEPARATOR_KEY_VALUE) seg,
      drop 1 (dropWhile (\<lambda>c. c \<noteq> SEPARATOR_KEY_VALUE) seg))"

fun keyed :: "string list \<Rightarrow> error + (string \<times> string) list" where
  "keyed [] = Inr []"
| "keyed (seg # segs) =
     (if SEPARATOR_KEY_VALUE \<in> set seg
      then (case keyed segs of Inl e \<Rightarrow> Inl e | Inr kvs \<Rightarrow> Inr (split_key_value seg # kvs))
      else Inl ParseError)"

text \<open>
  Modelled from the spec: \<open>DictOfStrings._from_string\<close> as a whole, steps 1 to 5 in the
  order of section 4.2.  Step 4: a key outside the allowed-key set, or a keyless key given
  both by position and by an explicit \<open>key:\<close> segment, is a \<open>ValidationError\<close>.  The
  specification's allowed-key set contains the keyless entries (section 3: the keyless
  entries are a subset of it, and for Patch it is filename, level, dest; the source says
  of \<open>KEYLESS_ENTRIES\<close> that "also filename:some_path is supported"), so it is the declared
  \<open>KEYLESS_ENTRIES\<close> together with the declared \<open>ALLOWED_KEYS\<close>.  Step 5: the mapping is
  returned; it is filled in segment order, a later explicit key overwriting an earlier one
  as dictionary assignment does.
\<close>

definition DictOfStrings_from_string ::
    "string list \<Rightarrow> string list \<Rightarrow> string \<Rightarrow> error + (string \<times> pval) list" where
  "DictOfStrings_from_string keyless allowed txt =
     (case positional keyless (split_string SEPARATOR_DICT txt) of
        (pos, rest) \<Rightarrow>
          (case keyed rest of
             Inl e \<Rightarrow> Inl e
           | Inr kvs \<Rightarrow>
               if list_ex (\<lambda>k. k \<notin> set (keyless @ allowed)) (map fst kvs) then Inl ValidationError
               else if list_ex (\<lambda>k. k \<in> set (map fst pos)) (map fst kvs) then Inl ValidationError
               else Inr (fold (\<lambda>kv. AList.update (fst kv) (PStr (snd kv))) (pos @ kvs) [])))"

text \<open>
  Modelled from the spec: \<open>DictOfStrings.__str__\<close> (section 4.2), not among the sources:
  the keyless entries first, in declared order, value only; then every other key as
  \<open>key:value\<close>; joined by the segment separator.
\<close>

definition DictOfStrings_str :: "string list \<Rightarrow> (string \<times> pval) list \<Rightarrow> string" where
  "DictOfStrings_str keyless self =
     join_string SEPARATOR_DICT
       (concat (map (\<lambda>k. case map_of self k of None \<Rightarrow> [] | Some v \<Rightarrow> [py_str v]) keyless)
        @ map (\<lambda>kv. fst kv @ SEPARATOR_KEY_VALUE # py_str (snd kv))
              (filter (\<lambda>kv. fst kv \<notin> set keyless) self))"

text \<open>Modelled from the spec: \<open>ListOfStrings._from_string\<close> and \<open>ListOfStrings.__str__\<close>
  (section 4.3), not among the sources: split on the list separator, join with it.\<close>

definition ListOfStrings_from_string :: "string \<Rightarrow> string list" where
  "ListOfStrings_from_string txt = split_string SEPARATOR_LIST txt"

definition ListOfStrings_str :: "string list \<Rightarrow> string" where
  "ListOfStrings_str self = join_string SEPARATOR_LIST self"

section \<open>\<open>convert.py\<close>: Patch, Patches, Dependency\<close>

definition ALLOWED_KEYS :: "string list" where
  "ALLOWED_KEYS = [''level'', ''dest'']"

definition KEYLESS_ENTRIES :: "string list" where
  "KEYLESS_ENTRIES = [''filename'']"

text \<open>\<open>Patch._from_string\<close>: the base parser, then \<open>res['level'] = int(res['level'])\<close>
  when the key is present.\<close>

definition Patch_from_string :: "string \<Rightarrow> error + (string \<times> pval) list" where
  "Patch_from_string txt =
     (case DictOfStrings_from_string KEYLESS_ENTRIES ALLOWED_KEYS txt of
        Inl e \<Rightarrow> Inl e
      | Inr res \<Rightarrow>
          (case map_of res ''level'' of
             None \<Rightarrow> Inr res
           | Some v \<Rightarrow>
               (case py_int_val v of
                  Inl e \<Rightarrow> Inl e
                | Inr n \<Rightarrow> Inr (AList.update ''level'' (PInt n) res))))"

text \<open>\<open>Patch.__str__ = DictOfStrings.__str__\<close>.\<close>

definition Patch_str :: "(string \<times> pval) list \<Rightarrow> string" where
  "Patch_str self = DictOfStrings_str KEYLESS_ENTRIES self"

text \<open>\<open>Patches._from_string\<close>: \<open>[Patch(x) for x in res]\<close>, left to right; the first
  element that raises ends the comprehension.  Constructing \<open>Patch(x)\<close> from a string
  parses it (\<open>Convert.__init__\<close> is not among the sources; section 4.1 of the
  specification).\<close>

fun Patch_each :: "string list \<Rightarrow> error + (string \<times> pval) list list" where
  "Patch_each [] = Inr []"
| "Patch_each (x # xs) =
     (case Patch_from_string x of
        Inl e \<Rightarrow> Inl e
      | Inr p \<Rightarrow> (case Patch_each xs of Inl e \<Rightarrow> Inl e | Inr ps \<Rightarrow> Inr (p # ps)))"

definition Patches_from_string :: "string \<Rightarrow> error + (string \<times> pval) list list" where
  "Patches_from_string txt = Patch_each (ListOfStrings_from_string txt)"

text \<open>\<open>Patches.__str__ = ListOfStrings.__str__\<close>, over the string forms of the elements.\<close>

definition Patches_str :: "(string \<times> pval) list list \<Rightarrow> string" where
  "Patches_str self = ListOfStrings_str (map Patch_str self)"

text \<open>
  \<open>Dependency\<close>.  The two version-operator classes are external: their constructors are
  the parameters \<open>vp\<close> and \<open>tp\<close> (a parser that may raise), their \<open>str\<close> the parameters
  \<open>sv\<close> and \<open>st\<close>.
\<close>

datatype ('v, 't) dep_val = Versop 'v | TcVersop 't

definition SEPARATOR_DEP :: char where "SEPARATOR_DEP = CHR '';''"

definition Dependency_from_string ::
    "(string \<Rightarrow> error + 'v) \<Rightarrow> (string \<Rightarrow> error + 't) \<Rightarrow> string
       \<Rightarrow> error + (string \<times> ('v, 't) dep_val) list" where
  "Dependency_from_string vp tp txt =
     (let items = split_string SEPARATOR_DEP txt in
      if length items < 1 then Inl ValueError
      else if length items > 2 then Inl ValueError
      else
        (case vp (items ! 0) of
           Inl e \<Rightarrow> Inl e
         | Inr v \<Rightarrow>
             (let res = AList.update ''versop'' (Versop v) [] in
              if length items > 1 then
                (case tp (items ! 1) of
                   Inl e \<Rightarrow> Inl e
                 | Inr t \<Rightarrow> Inr (AList.update ''tc_versop'' (TcVersop t) res))
              else Inr res)))"

fun dep_val_str :: "('v \<Rightarrow> string) \<Rightarrow> ('t \<Rightarrow> string) \<Rightarrow> ('v, 't) dep_val \<Rightarrow> string" where
  "dep_val_str sv st (Versop v) = sv v"
| "dep_val_str sv st (TcVersop t) = st t"

text \<open>\<open>Dependency.__str__\<close>; \<open>self['versop']\<close> raises \<open>KeyError\<close> when the key is missing.\<close>

definition Dependency_str ::
    "('v \<Rightarrow> string) \<Rightarrow> ('t \<Rightarrow> string) \<Rightarrow> (string \<times> ('v, 't) dep_val) list \<Rightarrow> error + string" where
  "Dependency_str sv st self =
     (case map_of self ''versop'' of
        None \<Rightarrow> Inl KeyError
      | Some v \<Rightarrow>
          Inr (join_string SEPARATOR_DEP
                 ([dep_val_str sv st v]
                  @ (case map_of self ''tc_versop'' of None \<Rightarrow> [] | Some t \<Rightarrow> [dep_val_str sv st t]))))"

text \<open>
  The values on which parsing the string form is expected to give the value back.  A Patch
  value has at least one key, each key once; \<open>filename\<close> and \<open>dest\<close> hold strings free of
  the segment separator, \<open>level\<close> holds an integer, and the filename has no key separator
  (it is written without its key).  The elements of a Patches value are moreover free of
  the list separator.
\<close>

fun valid_entry :: "string \<times> pval \<Rightarrow> bool" where
  "valid_entry (k, PStr v) =
     (if k = ''filename'' then SEPARATOR_DICT \<notin> set v \<and> SEPARATOR_KEY_VALUE \<notin> set v
      else k = ''dest'' \<and> SEPARATOR_DICT \<notin> set v)"
| "valid_entry (k, PInt n) = (k = ''level'')"

definition valid_patch :: "(string \<times> pval) list \<Rightarrow> bool" where
  "valid_patch x = (x \<noteq> [] \<and> distinct (map fst x) \<and> list_all valid_entry x)"

definition comma_free :: "(string \<times> pval) list \<Rightarrow> bool" where
  "comma_free x = list_all (\<lambda>kv. SEPARATOR_LIST \<notin> set (py_str (snd kv))) x"

definition valid_patches :: "(string \<times> pval) list list \<Rightarrow> bool" where
  "valid_patches xs = (xs \<noteq> [] \<and> list_all valid_patch xs \<and> list_all comma_free xs)"

text \<open>A Patch value whose filename, if any, has no key separator.\<close>

definition plain_filename :: "(string \<times> pval) list \<Rightarrow> bool" where
  "plain_filename x =
     (case map_of x ''filename'' of None \<Rightarrow> True | Some w \<Rightarrow> SEPARATOR_KEY_VALUE \<notin> set (py_str w))"

text \<open>
  What the round trip of a Dependency value needs from the external version-operator
  classes: each operator held by the value is parsed back from its own string form, and
  that string form has no Dependency separator.
\<close>

fun dep_val_roundtrips ::
    "(string \<Rightarrow> error + 'v) \<Rightarrow> (string \<Rightarrow> error + 't) \<Rightarrow> ('v \<Rightarrow> string) \<Rightarrow> ('t \<Rightarrow> string)
       \<Rightarrow> ('v, 't) dep_val \<Rightarrow> bool" where
  "dep_val_roundtrips vp tp sv st (Versop v) = (vp (sv v) = Inr v \<and> SEPARATOR_DEP \<notin> set (sv v))"
| "dep_val_roundtrips vp tp sv st (TcVersop t) = (tp (st t) = Inr t \<and> SEPARATOR_DEP \<notin> set (st t))"

definition external_roundtrip ::
    "(string \<Rightarrow> error + 'v) \<Rightarrow> (string \<Rightarrow> error + 't) \<Rightarrow> ('v \<Rightarrow> string) \<Rightarrow> ('t \<Rightarrow> string)
       \<Rightarrow> (string \<times> ('v, 't) dep_val) list \<Rightarrow> bool" where
  "external_roundtrip vp tp sv st self = list_all (\<lambda>kv. dep_val_roundtrips vp tp sv st (snd kv)) self"

text \<open>A sample external parser for closed instances of the theorems about
  \<open>Dependency\<close>: it accepts every string and keeps its text.\<close>

definition keep_text :: "string \<Rightarrow> error + string" where
  "keep_text s = Inr s"

definition text_of :: "string \<Rightarrow> string" where
  "text_of s = s"


section \<open>Splitting and joining\<close>

lemma split_string_not_Nil: "split_string sep s \<noteq> []"
  by (induction s) (auto split: list.splits)

lemma split_string_append:
  "split_string sep (a @ sep # b) = split_string sep a @ split_string sep b"
proof (induction a)
  case Nil
  show ?case by simp
next
  case (Cons c a)
  then show ?case
    using split_string_not_Nil [of sep a] by (cases "split_string sep a") auto
qed

lemma split_string_no_sep: "sep \<notin> set a \<Longrightarrow> split_string sep a = [a]"
  by (induction a) auto

lemma split_string_segments: "s \<in> set (split_string sep t) \<Longrightarrow> sep \<notin> set s \<and> set s \<subseteq> set t"
proof (induction t arbitrary: s)
  case Nil
  then show ?case by simp
next
  case (Cons c t)
  obtain x xs where sp: "split_string sep t = x # xs"
    using split_string_not_Nil [of sep t] by (cases "split_string sep t") auto
  show ?case
  proof (cases "c = sep")
    case True
    with Cons show ?thesis by auto
  next
    case False
    with Cons.prems sp have "s = c # x \<or> s \<in> set xs" by auto
    then show ?thesis
    proof
      assume "s = c # x"
      moreover have "sep \<notin> set x \<and> set x \<subseteq> set t" using Cons.IH [of x] sp by simp
      ultimately show ?thesis using False by auto
    next
      assume "s \<in> set xs"
      then have "sep \<notin> set s \<and> set s \<subseteq> set t" using Cons.IH [of s] sp by simp
      then show ?thesis by auto
    qed
  qed
qed

lemma split_join:
  "segs \<noteq> [] \<Longrightarrow> \<forall>s \<in> set segs. sep \<notin> set s \<Longrightarrow> split_string sep (join_string sep segs) = segs"
proof (induction sep segs rule: join_string.induct)
  case (1 sep)
  then show ?case by simp
next
  case (2 sep x)
  then show ?case by (simp add: split_string_no_sep)
next
  case (3 sep x y ys)
  then show ?case by (simp add: split_string_append split_string_no_sep)
qed

section \<open>Dependency: segment count and fields\<close>



text \<open>
  Claim C3.  With exactly one segment, and the version-operator parser accepting it, the
  result holds \<open>versop\<close> (the parsed first segment) and no \<open>tc_versop\<close>; with exactly
  two segments, both parsers accepting, it holds \<open>versop\<close> and \<open>tc_versop\<close> (the parsed
  second segment).  Conversely every result holds the parsed first segment under
  \<open>versop\<close>, and \<open>tc_versop\<close> exactly when there is a second segment.
\<close>

theorem Dependency_fields:
  "(length (split_string SEPARATOR_DEP txt) = 1 \<and> vp (split_string SEPARATOR_DEP txt ! 0) = Inr v
      \<longrightarrow> (\<exists>res. Dependency_from_string vp tp txt = Inr res
                \<and> map fst res = [''versop'']
                \<and> map_of res ''versop'' = Some (Versop v)
                \<and> map_of res ''tc_versop'' = None))
   \<and> (length (split_string SEPARATOR_DEP txt) = 2 \<and> vp (split_string SEPARATOR_DEP txt ! 0) = Inr v
        \<and> tp (split_string SEPARATOR_DEP txt ! 1) = Inr t
      \<longrightarrow> (\<exists>res. Dependency_from_string vp tp txt = Inr res
                \<and> map fst res = [''versop'', ''tc_versop'']
                \<and> map_of res ''versop'' = Some (Versop v)
                \<and> map_of res ''tc_versop'' = Some (TcVersop t)))
   \<and> (Dependency_from_string vp tp txt = Inr res2
      \<longrightarrow> (\<exists>v2. vp (split_string SEPARATOR_DEP txt ! 0) = Inr v2
                  \<and> map_of res2 ''versop'' = Some (Versop v2))
          \<and> (length (split_string SEPARATOR_DEP txt) = 1 \<longrightarrow> map_of res2 ''tc_versop'' = None)
          \<and> (length (split_string SEPARATOR_DEP txt) \<noteq> 1
                \<longrightarrow> (\<exists>t2. tp (split_string SEPARATOR_DEP txt ! 1) = Inr t2
                          \<and> map_of res2 ''tc_versop'' = Some (TcVersop t2))))"
proof -
  let ?items = "split_string SEPARATOR_DEP txt"
  have one: "length ?items = 1 \<and> vp (?items ! 0) = Inr v
      \<longrightarrow> (\<exists>res. Dependency_from_string vp tp txt = Inr res
                \<and> map fst res = [''versop'']
                \<and> map_of res ''versop'' = Some (Versop v)
                \<and> map_of res ''tc_versop'' = None)"
    by (simp add: Dependency_from_string_def Let_def)
  have two: "length ?items = 2 \<and> vp (?items ! 0) = Inr v \<and> tp (?items ! 1) = Inr t
      \<longrightarrow> (\<exists>res. Dependency_from_string vp tp txt = Inr res
                \<and> map fst res = [''versop'', ''tc_versop'']
                \<and> map_of res ''versop'' = Some (Versop v)
                \<and> map_of res ''tc_versop'' = Some (TcVersop t))"
    by (simp add: Dependency_from_string_def Let_def)
  have conv: "Dependency_from_string vp tp txt = Inr res2
      \<longrightarrow> (\<exists>v2. vp (?items ! 0) = Inr v2 \<and> map_of res2 ''versop'' = Some (Versop v2))
          \<and> (length ?items = 1 \<longrightarrow> map_of res2 ''tc_versop'' = None)
          \<and> (length ?items \<noteq> 1
                \<longrightarrow> (\<exists>t2. tp (?items ! 1) = Inr t2 \<and> map_of res2 ''tc_versop'' = Some (TcVersop t2)))"
  proof (cases "split_string SEPARATOR_DEP txt")
    case Nil
    then show ?thesis by (simp add: Dependency_from_string_def)
  next
    case (Cons a r)
    then show ?thesis
      by (cases r) (auto simp add: Dependency_from_string_def Let_def split: if_splits sum.splits list.splits)
  qed
  from one two conv show ?thesis by blast
qed

theorem Dependency_fields_witness:
  "length (split_string SEPARATOR_DEP ''1.2.3'') = 1
   \<and> keep_text (split_string SEPARATOR_DEP ''1.2.3'' ! 0) = Inr ''1.2.3''
   \<and> length (split_string SEPARATOR_DEP ''1.2.3;>=2020a'') = 2
   \<and> keep_text (split_string SEPARATOR_DEP ''1.2.3;>=2020a'' ! 0) = Inr ''1.2.3''
   \<and> keep_text (split_string SEPARATOR_DEP ''1.2.3;>=2020a'' ! 1) = Inr ''>=2020a''
   \<and> (\<exists>res. Dependency_from_string keep_text keep_text ''1.2.3'' = Inr res
          \<and> map_of res ''versop'' = Some (Versop ''1.2.3'') \<and> map_of res ''tc_versop'' = None)
   \<and> (\<exists>res. Dependency_from_string keep_text keep_text ''1.2.3;>=2020a'' = Inr res
          \<and> map_of res ''versop'' = Some (Versop ''1.2.3'')
          \<and> map_of res ''tc_versop'' = Some (TcVersop ''>=2020a''))"
proof -
  have a: "length (split_string SEPARATOR_DEP ''1.2.3'') = 1
   \<and> keep_text (split_string SEPARATOR_DEP ''1.2.3'' ! 0) = Inr ''1.2.3''"
    by (simp add: SEPARATOR_DEP_def keep_text_def)
  have b: "length (split_string SEPARATOR_DEP ''1.2.3;>=2020a'') = 2
   \<and> keep_text (split_string SEPARATOR_DEP ''1.2.3;>=2020a'' ! 0) = Inr ''1.2.3''
   \<and> keep_text (split_string SEPARATOR_DEP ''1.2.3;>=2020a'' ! 1) = Inr ''>=2020a''"
    by (simp add: SEPARATOR_DEP_def keep_text_def)
  from a b
    Dependency_fields [of "''1.2.3''" keep_text "''1.2.3''" keep_text]
    Dependency_fields [of "''1.2.3;>=2020a''" keep_text "''1.2.3''" keep_text "''>=2020a''"]
  show ?thesis by blast
qed

section \<open>Patch: the level entry\<close>

lemmas patch_defs =
  Patch_from_string_def DictOfStrings_from_string_def KEYLESS_ENTRIES_def ALLOWED_KEYS_def
  SEPARATOR_DICT_def SEPARATOR_KEY_VALUE_def split_key_value_def Let_def

lemma base_shorthand:
  assumes "CHR '';'' \<notin> set f" and "CHR '':'' \<notin> set f" and "CHR '';'' \<notin> set l"
  shows "DictOfStrings_from_string KEYLESS_ENTRIES ALLOWED_KEYS (f @ '';level:'' @ l)
         = Inr [(''filename'', PStr f), (''level'', PStr l)]"
proof -
  have "split_string CHR '';'' (f @ CHR '';'' # ''level:'' @ l) = [f, ''level:'' @ l]"
    using assms by (simp only: split_string_append) (simp add: split_string_no_sep)
  then show ?thesis
    using assms by (simp add: patch_defs)
qed

lemma base_explicit:
  assumes "CHR '';'' \<notin> set f" and "CHR '';'' \<notin> set l"
  shows "DictOfStrings_from_string KEYLESS_ENTRIES ALLOWED_KEYS (''filename:'' @ f @ '';level:'' @ l)
         = Inr [(''filename'', PStr f), (''level'', PStr l)]"
proof -
  have "split_string CHR '';'' ((''filename:'' @ f) @ CHR '';'' # ''level:'' @ l)
        = [''filename:'' @ f, ''level:'' @ l]"
    using assms by (simp only: split_string_append) (simp add: split_string_no_sep)
  then show ?thesis
    using assms by (simp add: patch_defs)
qed

lemma digit_not_special:
  "is_digit c \<Longrightarrow> c \<noteq> CHR ''_'' \<and> c \<noteq> CHR ''+'' \<and> c \<noteq> CHR ''-'' \<and> \<not> is_space c"
  by (auto simp add: is_digit_def is_space_def)

lemma digit_groups_digits: "s \<noteq> [] \<Longrightarrow> list_all is_digit s \<Longrightarrow> digit_groups s"
  by (induction s rule: digit_groups.induct) (auto dest: digit_not_special)

lemma py_strip_id: "s \<noteq> [] \<Longrightarrow> \<not> is_space (hd s) \<Longrightarrow> \<not> is_space (last s) \<Longrightarrow> py_strip s = s"
proof -
  assume a: "s \<noteq> []" "\<not> is_space (hd s)" "\<not> is_space (last s)"
  then have "dropWhile is_space s = s" by (cases s) auto
  moreover have "dropWhile is_space (rev s) = rev s"
    using a by (cases "rev s") (auto simp add: last_rev [symmetric] hd_rev simp del: last_rev)
  ultimately show ?thesis by (simp add: py_strip_def)
qed

lemma py_int_digits:
  assumes "s \<noteq> []" and "list_all is_digit s"
  shows "py_int s = Inr (foldl (\<lambda>a c. 10 * a + digit_val c) 0 s)"
proof -
  from assms have h: "is_digit (hd s)" and l: "is_digit (last s)"
    by (auto simp add: list_all_iff)
  then have "py_strip s = s"
    using assms(1) digit_not_special py_strip_id by blast
  moreover obtain c cs where s: "s = c # cs" using assms(1) by (cases s) auto
  moreover have "filter is_digit s = s" using assms(2) by (simp add: list_all_iff)
  ultimately show ?thesis
    using assms h digit_groups_digits [of s] digit_not_special [of c]
    by (simp add: py_int_def digits_value_def)
qed

lemma py_int_error: "isl (py_int v) \<Longrightarrow> py_int v = Inl ValueError"
  by (auto simp add: py_int_def split: list.splits if_splits)

lemma digit_groups_chars: "digit_groups s \<Longrightarrow> c \<in> set s \<Longrightarrow> is_digit c \<or> c = CHR ''_''"
  by (induction s rule: digit_groups.induct) (auto split: if_splits)

lemma py_strip_keeps: "c \<in> set s \<Longrightarrow> \<not> is_space c \<Longrightarrow> c \<in> set (py_strip s)"
proof -
  assume a: "c \<in> set s" "\<not> is_space c"
  have keep: "\<And>xs. c \<in> set xs \<Longrightarrow> c \<in> set (dropWhile is_space xs)"
  proof -
    fix xs
    assume "c \<in> set xs"
    then show "c \<in> set (dropWhile is_space xs)"
      using a(2) by (induction xs) auto
  qed
  from a(1) have "c \<in> set (dropWhile is_space s)" by (rule keep)
  then have "c \<in> set (rev (dropWhile is_space s))" by simp
  then have "c \<in> set (dropWhile is_space (rev (dropWhile is_space s)))" by (rule keep)
  then show ?thesis by (simp add: py_strip_def)
qed

lemma py_int_non_numeric:
  assumes "c \<in> set v" and "\<not> is_digit c" and "\<not> is_space c"
      and "c \<noteq> CHR ''+''" and "c \<noteq> CHR ''-''" and "c \<noteq> CHR ''_''"
  shows "py_int v = Inl ValueError"
proof -
  from assms have m: "c \<in> set (py_strip v)" by (simp add: py_strip_keeps)
  then obtain h t where ht: "py_strip v = h # t" by (cases "py_strip v") auto
  show ?thesis
  proof (cases "h = CHR ''-'' \<or> h = CHR ''+''")
    case True
    with m ht assms have "c \<in> set t" by auto
    with assms have "\<not> digit_groups t" using digit_groups_chars by blast
    with True ht show ?thesis by (auto simp add: py_int_def)
  next
    case False
    from m ht assms have "\<not> digit_groups (h # t)" using digit_groups_chars by metis
    with False ht show ?thesis by (auto simp add: py_int_def)
  qed
qed

text \<open>\<open>int\<close> at the edge of its syntax: the separator 28 is not stripped, no-break
  space and next line are; one underscore between digits is accepted.\<close>

lemma py_int_edge_characters:
  "py_int [CHR 0x1C, CHR ''5''] = Inl ValueError
   \<and> py_int [CHR 0xA0, CHR ''5''] = Inr 5
   \<and> py_int [CHR ''5'', CHR 0x85] = Inr 5
   \<and> py_int '' +7 '' = Inr 7
   \<and> py_int ''- 1'' = Inl ValueError
   \<and> py_int ''1_0'' = Inr 10
   \<and> py_int ''1__0'' = Inl ValueError
   \<and> py_int '''' = Inl ValueError"
  by code_simp

text \<open>
  Claim C4.  Whenever the dictionary of the base parser holds a non-empty string of decimal
  digits under \<open>level\<close> (the value of the level segment of the input),
  \<open>Patch._from_string\<close> succeeds and holds under \<open>level\<close> the integer that the digits
  denote (an integer value, not a string).  In particular
  \<open>f;level:d\<close> parses to the filename \<open>f\<close> and the integer of the digits \<open>d\<close>.
\<close>

theorem Patch_level_is_integer:
  "(DictOfStrings_from_string KEYLESS_ENTRIES ALLOWED_KEYS txt = Inr res
      \<and> map_of res ''level'' = Some (PStr v) \<and> v \<noteq> [] \<and> list_all is_digit v
     \<longrightarrow> (\<exists>res2. Patch_from_string txt = Inr res2
            \<and> map_of res2 ''level'' = Some (PInt (foldl (\<lambda>a c. 10 * a + digit_val c) 0 v))))
   \<and> (CHR '';'' \<notin> set f \<and> CHR '':'' \<notin> set f \<and> v \<noteq> [] \<and> list_all is_digit v
     \<longrightarrow> Patch_from_string (f @ '';level:'' @ v)
          = Inr [(''filename'', PStr f),
                 (''level'', PInt (foldl (\<lambda>a c. 10 * a + digit_val c) 0 v))])"
proof -
  have digits_no_semicolon: "CHR '';'' \<notin> set v" if "list_all is_digit v"
    using that by (auto simp add: list_all_iff is_digit_def)
  have general: "DictOfStrings_from_string KEYLESS_ENTRIES ALLOWED_KEYS txt = Inr res
      \<and> map_of res ''level'' = Some (PStr v) \<and> v \<noteq> [] \<and> list_all is_digit v
     \<longrightarrow> (\<exists>res2. Patch_from_string txt = Inr res2
            \<and> map_of res2 ''level'' = Some (PInt (foldl (\<lambda>a c. 10 * a + digit_val c) 0 v)))"
    by (auto simp add: Patch_from_string_def py_int_digits update_conv')
  have shorthand: "CHR '';'' \<notin> set f \<and> CHR '':'' \<notin> set f \<and> v \<noteq> [] \<and> list_all is_digit v
     \<longrightarrow> Patch_from_string (f @ '';level:'' @ v)
          = Inr [(''filename'', PStr f),
                 (''level'', PInt (foldl (\<lambda>a c. 10 * a + digit_val c) 0 v))]"
  proof (intro impI)
    assume a: "CHR '';'' \<notin> set f \<and> CHR '':'' \<notin> set f \<and> v \<noteq> [] \<and> list_all is_digit v"
    then have "DictOfStrings_from_string KEYLESS_ENTRIES ALLOWED_KEYS (f @ '';level:'' @ v)
         = Inr [(''filename'', PStr f), (''level'', PStr v)]"
      using base_shorthand digits_no_semicolon by blast
    with a show "Patch_from_string (f @ '';level:'' @ v)
          = Inr [(''filename'', PStr f),
                 (''level'', PInt (foldl (\<lambda>a c. 10 * a + digit_val c) 0 v))]"
      by (simp add: Patch_from_string_def py_int_digits)
  qed
  from general shorthand show ?thesis by blast
qed

theorem Patch_level_is_integer_witness:
  "DictOfStrings_from_string KEYLESS_ENTRIES ALLOWED_KEYS ''a.patch;level:2''
      = Inr [(''filename'', PStr ''a.patch''), (''level'', PStr ''2'')]
   \<and> list_all is_digit ''2''
   \<and> (\<exists>res2. Patch_from_string ''a.patch;level:2'' = Inr res2
          \<and> map_of res2 ''level'' = Some (PInt 2))
   \<and> CHR '';'' \<notin> set ''b.patch'' \<and> CHR '':'' \<notin> set ''b.patch'' \<and> list_all is_digit ''17''
   \<and> Patch_from_string ''b.patch;level:17''
        = Inr [(''filename'', PStr ''b.patch''), (''level'', PInt 17)]"
proof -
  have b: "DictOfStrings_from_string KEYLESS_ENTRIES ALLOWED_KEYS ''a.patch;level:2''
      = Inr [(''filename'', PStr ''a.patch''), (''level'', PStr ''2'')]"
    by code_simp
  have d: "list_all is_digit ''2'' \<and> list_all is_digit ''17''"
    by (simp add: is_digit_def)
  have c: "CHR '';'' \<notin> set ''b.patch'' \<and> CHR '':'' \<notin> set ''b.patch''"
    by simp
  have "(\<exists>res2. Patch_from_string ''a.patch;level:2'' = Inr res2
          \<and> map_of res2 ''level'' = Some (PInt 2))
        \<and> Patch_from_string ''b.patch;level:17''
        = Inr [(''filename'', PStr ''b.patch''), (''level'', PInt 17)]"
    using b c d
      Patch_level_is_integer [of "''a.patch;level:2''"
        "[(''filename'', PStr ''a.patch''), (''level'', PStr ''2'')]" "''2''" "''b.patch''"]
      Patch_level_is_integer [of "''a.patch;level:2''"
        "[(''filename'', PStr ''a.patch''), (''level'', PStr ''2'')]" "''17''" "''b.patch''"]
    by (simp add: digit_val_def)
  with b c d show ?thesis by blast
qed

text \<open>
  Claim C5, as amended.  Whenever the dictionary of the base parser holds under \<open>level\<close>
  a string that \<open>int\<close> rejects, \<open>Patch._from_string\<close> fails with \<open>ValueError\<close>, the
  exception of \<open>int\<close> itself.  A value with a character that is neither a digit, nor
  white space, nor a sign, nor an underscore is rejected; in particular \<open>f;level:v\<close> fails
  with \<open>ValueError\<close> for every such \<open>v\<close>, and so does a level made of the separator 28
  and a digit.
\<close>

theorem Patch_level_not_integer:
  "(DictOfStrings_from_string KEYLESS_ENTRIES ALLOWED_KEYS txt = Inr res
      \<and> map_of res ''level'' = Some (PStr v) \<and> isl (py_int v)
     \<longrightarrow> Patch_from_string txt = Inl ValueError)
   \<and> (list_ex (\<lambda>c. \<not> is_digit c \<and> \<not> is_space c \<and> c \<notin> set ''+-_'') v \<longrightarrow> isl (py_int v))
   \<and> (CHR '';'' \<notin> set f \<and> CHR '':'' \<notin> set f \<and> CHR '';'' \<notin> set v \<and> isl (py_int v)
     \<longrightarrow> Patch_from_string (f @ '';level:'' @ v) = Inl ValueError)
   \<and> Patch_from_string (''a.patch;level:'' @ [CHR 0x1C, CHR ''5'']) = Inl ValueError"
proof -
  have general: "DictOfStrings_from_string KEYLESS_ENTRIES ALLOWED_KEYS txt = Inr res
      \<and> map_of res ''level'' = Some (PStr v) \<and> isl (py_int v)
     \<longrightarrow> Patch_from_string txt = Inl ValueError"
    by (auto simp add: Patch_from_string_def dest: py_int_error)
  have chars: "list_ex (\<lambda>c. \<not> is_digit c \<and> \<not> is_space c \<and> c \<notin> set ''+-_'') v \<longrightarrow> isl (py_int v)"
    by (auto simp add: list_ex_iff py_int_non_numeric)
  have shorthand: "CHR '';'' \<notin> set f \<and> CHR '':'' \<notin> set f \<and> CHR '';'' \<notin> set v \<and> isl (py_int v)
     \<longrightarrow> Patch_from_string (f @ '';level:'' @ v) = Inl ValueError"
  proof (intro impI)
    assume a: "CHR '';'' \<notin> set f \<and> CHR '':'' \<notin> set f \<and> CHR '';'' \<notin> set v \<and> isl (py_int v)"
    then have "DictOfStrings_from_string KEYLESS_ENTRIES ALLOWED_KEYS (f @ '';level:'' @ v)
         = Inr [(''filename'', PStr f), (''level'', PStr v)]"
      using base_shorthand by blast
    moreover from a have "py_int v = Inl ValueError" by (simp add: py_int_error)
    ultimately show "Patch_from_string (f @ '';level:'' @ v) = Inl ValueError"
      by (simp add: Patch_from_string_def)
  qed
  have separator: "Patch_from_string (''a.patch;level:'' @ [CHR 0x1C, CHR ''5'']) = Inl ValueError"
    by code_simp
  show ?thesis
    by (intro conjI general chars shorthand separator)
qed

theorem Patch_level_not_integer_witness:
  "DictOfStrings_from_string KEYLESS_ENTRIES ALLOWED_KEYS ''a.patch;level:two''
      = Inr [(''filename'', PStr ''a.patch''), (''level'', PStr ''two'')]
   \<and> list_ex (\<lambda>c. \<not> is_digit c \<and> \<not> is_space c \<and> c \<notin> set ''+-_'') ''two''
   \<and> isl (py_int ''two'')
   \<and> Patch_from_string ''a.patch;level:two'' = Inl ValueError"
proof -
  have b: "DictOfStrings_from_string KEYLESS_ENTRIES ALLOWED_KEYS ''a.patch;level:two''
      = Inr [(''filename'', PStr ''a.patch''), (''level'', PStr ''two'')]"
    by code_simp
  have c: "list_ex (\<lambda>c. \<not> is_digit c \<and> \<not> is_space c \<and> c \<notin> set ''+-_'') ''two''"
    by code_simp
  have i: "isl (py_int ''two'')"
    by (rule mp [OF conjunct1 [OF conjunct2 [OF Patch_level_not_integer]] c])
  have p: "Patch_from_string ''a.patch;level:two'' = Inl ValueError"
    by (rule mp [OF conjunct1 [OF Patch_level_not_integer] conjI [OF b conjI [OF _ i]]]) simp
  show ?thesis
    by (intro conjI b c i p)
qed

text \<open>The claim as stated names \<open>ParseError\<close> (and \<open>ValidationError\<close> in the taxonomy);
  the error of a non-numeric level is neither.\<close>

theorem Patch_level_error_counterexample:
  "Patch_from_string ''a.patch;level:x'' = Inl ValueError
   \<and> Patch_from_string ''a.patch;level:x'' \<noteq> Inl ParseError
   \<and> Patch_from_string ''a.patch;level:x'' \<noteq> Inl ValidationError"
  by code_simp

text \<open>
  Claim C10.  \<open>Patch._from_string\<close> changes only the \<open>level\<close> entry of the dictionary of
  the base parser: an error of the base parser is passed on; without \<open>level\<close> the
  dictionary is returned unchanged; and every result has the keys of the base dictionary,
  in the same order, and under every key other than \<open>level\<close> the very value the base
  parser produced.
\<close>

theorem Patch_changes_only_level:
  "(DictOfStrings_from_string KEYLESS_ENTRIES ALLOWED_KEYS txt = Inl e
      \<longrightarrow> Patch_from_string txt = Inl e)
   \<and> (DictOfStrings_from_string KEYLESS_ENTRIES ALLOWED_KEYS txt = Inr res
      \<and> map_of res ''level'' = None
      \<longrightarrow> Patch_from_string txt = Inr res)
   \<and> (DictOfStrings_from_string KEYLESS_ENTRIES ALLOWED_KEYS txt = Inr res
      \<and> Patch_from_string txt = Inr res2
      \<longrightarrow> map fst res2 = map fst res
          \<and> (\<forall>k. k \<noteq> ''level'' \<longrightarrow> map_of res2 k = map_of res k)
          \<and> (\<forall>k v. k \<noteq> ''level'' \<and> (k, v) \<in> set res \<longrightarrow> (k, v) \<in> set res2))"
proof -
  have err: "DictOfStrings_from_string KEYLESS_ENTRIES ALLOWED_KEYS txt = Inl e
      \<longrightarrow> Patch_from_string txt = Inl e"
    by (simp add: Patch_from_string_def)
  have absent: "DictOfStrings_from_string KEYLESS_ENTRIES ALLOWED_KEYS txt = Inr res
      \<and> map_of res ''level'' = None \<longrightarrow> Patch_from_string txt = Inr res"
    by (simp add: Patch_from_string_def)
  have upd_set: "(k, v) \<in> set (AList.update k2 w al)" if "k \<noteq> k2" "(k, v) \<in> set al"
    for k k2 :: string and v w :: pval and al
    using that by (induction al) auto
  have frame: "DictOfStrings_from_string KEYLESS_ENTRIES ALLOWED_KEYS txt = Inr res
      \<and> Patch_from_string txt = Inr res2
      \<longrightarrow> map fst res2 = map fst res
          \<and> (\<forall>k. k \<noteq> ''level'' \<longrightarrow> map_of res2 k = map_of res k)
          \<and> (\<forall>k v. k \<noteq> ''level'' \<and> (k, v) \<in> set res \<longrightarrow> (k, v) \<in> set res2)"
  proof (intro impI)
    assume a: "DictOfStrings_from_string KEYLESS_ENTRIES ALLOWED_KEYS txt = Inr res
      \<and> Patch_from_string txt = Inr res2"
    show "map fst res2 = map fst res
          \<and> (\<forall>k. k \<noteq> ''level'' \<longrightarrow> map_of res2 k = map_of res k)
          \<and> (\<forall>k v. k \<noteq> ''level'' \<and> (k, v) \<in> set res \<longrightarrow> (k, v) \<in> set res2)"
    proof (cases "map_of res ''level''")
      case None
      with a have "res2 = res" by (auto simp add: Patch_from_string_def)
      then show ?thesis by simp
    next
      case (Some w)
      with a obtain n where r2: "res2 = AList.update ''level'' (PInt n) res"
        by (auto simp add: Patch_from_string_def split: sum.splits)
      from Some have "''level'' \<in> fst ` set res"
        by (metis map_of_eq_None_iff option.distinct(1))
      then have "map fst res2 = map fst res"
        using r2 by (simp add: update_keys)
      moreover have "\<forall>k. k \<noteq> ''level'' \<longrightarrow> map_of res2 k = map_of res k"
        using r2 by (simp add: update_conv')
      moreover have "\<forall>k v. k \<noteq> ''level'' \<and> (k, v) \<in> set res \<longrightarrow> (k, v) \<in> set res2"
        using r2 upd_set by blast
      ultimately show ?thesis by blast
    qed
  qed
  from err absent frame show ?thesis by blast
qed

theorem Patch_changes_only_level_witness:
  "DictOfStrings_from_string KEYLESS_ENTRIES ALLOWED_KEYS ''a.patch;dest:12;level:3''
      = Inr [(''filename'', PStr ''a.patch''), (''dest'', PStr ''12''), (''level'', PStr ''3'')]
   \<and> Patch_from_string ''a.patch;dest:12;level:3''
      = Inr [(''filename'', PStr ''a.patch''), (''dest'', PStr ''12''), (''level'', PInt 3)]
   \<and> map fst [(''filename'', PStr ''a.patch''), (''dest'', PStr ''12''), (''level'', PInt 3)]
      = map fst [(''filename'', PStr ''a.patch''), (''dest'', PStr ''12''), (''level'', PStr ''3'')]
   \<and> DictOfStrings_from_string KEYLESS_ENTRIES ALLOWED_KEYS ''a.patch;dest:12''
      = Inr [(''filename'', PStr ''a.patch''), (''dest'', PStr ''12'')]
   \<and> map_of [(''filename'', PStr ''a.patch''), (''dest'', PStr ''12'')] ''level'' = None
   \<and> Patch_from_string ''a.patch;dest:12''
      = Inr [(''filename'', PStr ''a.patch''), (''dest'', PStr ''12'')]
   \<and> DictOfStrings_from_string KEYLESS_ENTRIES ALLOWED_KEYS ''a.patch;b.patch'' = Inl ParseError
   \<and> Patch_from_string ''a.patch;b.patch'' = Inl ParseError"
proof -
  have b1: "DictOfStrings_from_string KEYLESS_ENTRIES ALLOWED_KEYS ''a.patch;dest:12;level:3''
      = Inr [(''filename'', PStr ''a.patch''), (''dest'', PStr ''12''), (''level'', PStr ''3'')]"
    by code_simp
  have p1: "Patch_from_string ''a.patch;dest:12;level:3''
      = Inr [(''filename'', PStr ''a.patch''), (''dest'', PStr ''12''), (''level'', PInt 3)]"
    by code_simp
  have b2: "DictOfStrings_from_string KEYLESS_ENTRIES ALLOWED_KEYS ''a.patch;dest:12''
      = Inr [(''filename'', PStr ''a.patch''), (''dest'', PStr ''12'')]"
    by code_simp
  have n2: "map_of [(''filename'', PStr ''a.patch''), (''dest'', PStr ''12'')] ''level'' = None"
    by simp
  have b3: "DictOfStrings_from_string KEYLESS_ENTRIES ALLOWED_KEYS ''a.patch;b.patch'' = Inl ParseError"
    by code_simp
  have c1: "map fst [(''filename'', PStr ''a.patch''), (''dest'', PStr ''12''), (''level'', PInt 3)]
      = map fst [(''filename'', PStr ''a.patch''), (''dest'', PStr ''12''), (''level'', PStr ''3'')]"
    by (rule conjunct1 [OF mp [OF conjunct2 [OF conjunct2 [OF Patch_changes_only_level]]
          conjI [OF b1 p1]]])
  have c2: "Patch_from_string ''a.patch;dest:12''
      = Inr [(''filename'', PStr ''a.patch''), (''dest'', PStr ''12'')]"
    by (rule mp [OF conjunct1 [OF conjunct2 [OF Patch_changes_only_level]] conjI [OF b2 n2]])
  have c3: "Patch_from_string ''a.patch;b.patch'' = Inl ParseError"
    by (rule mp [OF conjunct1 [OF Patch_changes_only_level] b3])
  show ?thesis
    by (intro conjI b1 p1 c1 b2 n2 c2 b3 c3)
qed

section \<open>The base parser on Patch strings\<close>

lemma keyed_all_colon:
  "list_all (\<lambda>s. SEPARATOR_KEY_VALUE \<in> set s) segs \<Longrightarrow> keyed segs = Inr (map split_key_value segs)"
  by (induction segs) auto

lemma keyed_some_plain:
  "\<not> list_all (\<lambda>s. SEPARATOR_KEY_VALUE \<in> set s) segs \<Longrightarrow> keyed segs = Inl ParseError"
  by (induction segs) (auto simp add: keyed_all_colon)

lemma positional_filename:
  "positional KEYLESS_ENTRIES (s # ss)
   = (if SEPARATOR_KEY_VALUE \<in> set s then ([], s # ss) else ([(''filename'', s)], ss))"
  by (simp add: KEYLESS_ENTRIES_def)

text \<open>The base parser on the segments of a Patch string, by cases on the first segment.\<close>

lemma base_first_plain:
  assumes "split_string SEPARATOR_DICT txt = s # ss" and "SEPARATOR_KEY_VALUE \<notin> set s"
  shows "DictOfStrings_from_string KEYLESS_ENTRIES ALLOWED_KEYS txt =
     (if list_all (\<lambda>s. SEPARATOR_KEY_VALUE \<in> set s) ss then
        (if list_ex (\<lambda>k. k \<notin> set (KEYLESS_ENTRIES @ ALLOWED_KEYS)) (map fst (map split_key_value ss))
         then Inl ValidationError
         else if list_ex (\<lambda>k. k = ''filename'') (map fst (map split_key_value ss))
         then Inl ValidationError
         else Inr (fold (\<lambda>kv. AList.update (fst kv) (PStr (snd kv)))
                     ((''filename'', s) # map split_key_value ss) []))
      else Inl ParseError)"
  using assms
  by (simp add: DictOfStrings_from_string_def positional_filename keyed_all_colon keyed_some_plain)

lemma base_first_keyed:
  assumes "split_string SEPARATOR_DICT txt = s # ss" and "SEPARATOR_KEY_VALUE \<in> set s"
  shows "DictOfStrings_from_string KEYLESS_ENTRIES ALLOWED_KEYS txt =
     (if list_all (\<lambda>s. SEPARATOR_KEY_VALUE \<in> set s) ss then
        (if list_ex (\<lambda>k. k \<notin> set (KEYLESS_ENTRIES @ ALLOWED_KEYS))
              (map fst (map split_key_value (s # ss)))
         then Inl ValidationError
         else Inr (fold (\<lambda>kv. AList.update (fst kv) (PStr (snd kv)))
                     (map split_key_value (s # ss)) []))
      else Inl ParseError)"
  using assms
  by (auto simp add: DictOfStrings_from_string_def positional_filename keyed_all_colon
      keyed_some_plain list_ex_iff)

lemma Patch_base_error:
  "DictOfStrings_from_string KEYLESS_ENTRIES ALLOWED_KEYS txt = Inl e \<Longrightarrow> Patch_from_string txt = Inl e"
  by (simp add: Patch_from_string_def)

lemma Patch_each_sound:
  "Patch_each segs = Inr ps \<Longrightarrow> list_all2 (\<lambda>seg p. Patch_from_string seg = Inr p) segs ps"
  by (induction segs arbitrary: ps) (auto split: sum.splits)

lemma Patch_each_complete:
  "list_all2 (\<lambda>seg p. Patch_from_string seg = Inr p) segs ps \<Longrightarrow> Patch_each segs = Inr ps"
  by (induction segs ps rule: list_all2_induct) auto

lemma Patch_each_all2:
  "Patch_each segs = Inr ps \<longleftrightarrow> list_all2 (\<lambda>seg p. Patch_from_string seg = Inr p) segs ps"
  using Patch_each_sound Patch_each_complete by blast

lemma Patch_each_first_error:
  "list_all (\<lambda>s. \<not> isl (Patch_from_string s)) pre \<Longrightarrow> Patch_from_string seg = Inl e
   \<Longrightarrow> Patch_each (pre @ seg # post) = Inl e"
proof (induction pre)
  case Nil
  then show ?case by simp
next
  case (Cons s pre)
  then show ?case by (cases "Patch_from_string s") auto
qed

lemma split_string_two:
  "sep \<in> set a \<Longrightarrow> \<exists>x y ys. split_string sep a = x # y # ys"
proof (induction a)
  case Nil
  then show ?case by simp
next
  case (Cons c a)
  obtain x xs where sp: "split_string sep a = x # xs"
    using split_string_not_Nil [of sep a] by (cases "split_string sep a") auto
  show ?case
  proof (cases "c = sep")
    case True
    with sp show ?thesis by simp
  next
    case False
    with Cons.prems have "sep \<in> set a" by simp
    then obtain x2 y ys where "split_string sep a = x2 # y # ys" using Cons.IH by blast
    with False show ?thesis by simp
  qed
qed

lemma split_string_prefix:
  "sep \<notin> set p \<Longrightarrow> split_string sep a = x # xs \<Longrightarrow> split_string sep (p @ a) = (p @ x) # xs"
  by (induction p) auto

lemma Patch_plain_second_segment:
  assumes "split_string SEPARATOR_DICT txt = s # g # gs" and "SEPARATOR_KEY_VALUE \<notin> set g"
  shows "Patch_from_string txt = Inl ParseError"
proof (cases "SEPARATOR_KEY_VALUE \<in> set s")
  case True
  then have "DictOfStrings_from_string KEYLESS_ENTRIES ALLOWED_KEYS txt = Inl ParseError"
    using assms by (simp add: base_first_keyed)
  then show ?thesis by (rule Patch_base_error)
next
  case False
  then have "DictOfStrings_from_string KEYLESS_ENTRIES ALLOWED_KEYS txt = Inl ParseError"
    using assms by (simp add: base_first_plain)
  then show ?thesis by (rule Patch_base_error)
qed

section \<open>Patches: one Patch per element, in order\<close>

text \<open>
  Claim C9.  \<open>Patches._from_string\<close> parses the comma-separated segments one by one,
  left to right: it succeeds with \<open>ps\<close> exactly when \<open>ps\<close> has one element per segment,
  each the Patch parse of its segment, in the order of the segments (two elements, in
  that order, for \<open>a.patch,b.patch;level:1\<close>); and when a segment fails after segments
  that all parse, the whole parse fails with the error of that segment, whatever the later
  segments are.
\<close>

theorem Patches_in_order:
  "Patches_from_string txt = Patch_each (split_string SEPARATOR_LIST txt)
   \<and> (Patches_from_string txt = Inr ps
        \<longrightarrow> list_all2 (\<lambda>seg p. Patch_from_string seg = Inr p) (split_string SEPARATOR_LIST txt) ps)
   \<and> (list_all2 (\<lambda>seg p. Patch_from_string seg = Inr p) (split_string SEPARATOR_LIST txt) ps
        \<longrightarrow> Patches_from_string txt = Inr ps)
   \<and> (split_string SEPARATOR_LIST txt = pre @ seg # post
        \<and> list_all (\<lambda>s. \<not> isl (Patch_from_string s)) pre \<and> Patch_from_string seg = Inl e
        \<longrightarrow> Patches_from_string txt = Inl e)
   \<and> Patches_from_string ''a.patch,b.patch;level:1''
        = Inr [[(''filename'', PStr ''a.patch'')],
               [(''filename'', PStr ''b.patch''), (''level'', PInt 1)]]"
proof -
  have unfold: "Patches_from_string txt = Patch_each (split_string SEPARATOR_LIST txt)"
    by (simp add: Patches_from_string_def ListOfStrings_from_string_def)
  have ok: "Patches_from_string txt = Inr ps
        \<longleftrightarrow> list_all2 (\<lambda>seg p. Patch_from_string seg = Inr p) (split_string SEPARATOR_LIST txt) ps"
    by (simp only: unfold Patch_each_all2)
  have fail: "split_string SEPARATOR_LIST txt = pre @ seg # post
        \<and> list_all (\<lambda>s. \<not> isl (Patch_from_string s)) pre \<and> Patch_from_string seg = Inl e
        \<longrightarrow> Patches_from_string txt = Inl e"
    by (simp add: unfold Patch_each_first_error)
  have two: "Patches_from_string ''a.patch,b.patch;level:1''
        = Inr [[(''filename'', PStr ''a.patch'')],
               [(''filename'', PStr ''b.patch''), (''level'', PInt 1)]]"
    by code_simp
  from unfold ok fail two show ?thesis by blast
qed

theorem Patches_in_order_witness:
  "Patches_from_string ''a.patch,b.patch;level:1''
     = Inr [[(''filename'', PStr ''a.patch'')], [(''filename'', PStr ''b.patch''), (''level'', PInt 1)]]
   \<and> list_all2 (\<lambda>seg p. Patch_from_string seg = Inr p)
        (split_string SEPARATOR_LIST ''a.patch,b.patch;level:1'')
        [[(''filename'', PStr ''a.patch'')], [(''filename'', PStr ''b.patch''), (''level'', PInt 1)]]
   \<and> split_string SEPARATOR_LIST ''a,b;level:z,c;bogus:1'' = [''a''] @ ''b;level:z'' # [''c;bogus:1'']
   \<and> list_all (\<lambda>s. \<not> isl (Patch_from_string s)) [''a'']
   \<and> Patch_from_string ''b;level:z'' = Inl ValueError
   \<and> Patch_from_string ''c;bogus:1'' = Inl ValidationError
   \<and> Patches_from_string ''a,b;level:z,c;bogus:1'' = Inl ValueError"
proof -
  have p: "Patches_from_string ''a.patch,b.patch;level:1''
     = Inr [[(''filename'', PStr ''a.patch'')], [(''filename'', PStr ''b.patch''), (''level'', PInt 1)]]"
    by (rule conjunct2 [OF conjunct2 [OF conjunct2 [OF conjunct2 [OF Patches_in_order]]]])
  have q: "list_all2 (\<lambda>seg p. Patch_from_string seg = Inr p)
        (split_string SEPARATOR_LIST ''a.patch,b.patch;level:1'')
        [[(''filename'', PStr ''a.patch'')], [(''filename'', PStr ''b.patch''), (''level'', PInt 1)]]"
    by (rule mp [OF conjunct1 [OF conjunct2 [OF Patches_in_order]] p])
  have s: "split_string SEPARATOR_LIST ''a,b;level:z,c;bogus:1'' = [''a''] @ ''b;level:z'' # [''c;bogus:1'']"
    by code_simp
  have a: "list_all (\<lambda>s. \<not> isl (Patch_from_string s)) [''a'']"
    by code_simp
  have b: "Patch_from_string ''b;level:z'' = Inl ValueError"
    by code_simp
  have c: "Patch_from_string ''c;bogus:1'' = Inl ValidationError"
    by code_simp
  have r: "Patches_from_string ''a,b;level:z,c;bogus:1'' = Inl ValueError"
    by (rule mp [OF conjunct1 [OF conjunct2 [OF conjunct2 [OF conjunct2 [OF Patches_in_order]]]]
          conjI [OF s conjI [OF a b]]])
  show ?thesis
    by (intro conjI p q s a b c r)
qed

section \<open>Patch: shorthand and explicit form, rejected keys\<close>

text \<open>
  Claim C6, as amended.  For every filename without a colon and every level value without
  a semicolon, the shorthand \<open>f;level:l\<close> and the explicit \<open>filename:f;level:l\<close> have the
  same Patch parse (the same dictionary, or the same error).
\<close>

theorem Patch_shorthand_equals_explicit:
  "CHR '':'' \<notin> set f \<and> CHR '';'' \<notin> set l
   \<longrightarrow> Patch_from_string (f @ '';level:'' @ l) = Patch_from_string (''filename:'' @ f @ '';level:'' @ l)"
proof (intro impI)
  assume a: "CHR '':'' \<notin> set f \<and> CHR '';'' \<notin> set l"
  show "Patch_from_string (f @ '';level:'' @ l) = Patch_from_string (''filename:'' @ f @ '';level:'' @ l)"
  proof (cases "CHR '';'' \<in> set f")
    case False
    with a have "DictOfStrings_from_string KEYLESS_ENTRIES ALLOWED_KEYS (f @ '';level:'' @ l)
        = DictOfStrings_from_string KEYLESS_ENTRIES ALLOWED_KEYS (''filename:'' @ f @ '';level:'' @ l)"
      using base_shorthand [of f l] base_explicit [of f l] by simp
    then show ?thesis by (simp only: Patch_from_string_def)
  next
    case True
    then obtain x g gs where sf: "split_string CHR '';'' f = x # g # gs"
      using split_string_two by blast
    then have "g \<in> set (split_string CHR '';'' f)" by simp
    then have "set g \<subseteq> set f" using split_string_segments by blast
    with a have g: "SEPARATOR_KEY_VALUE \<notin> set g" by (auto simp add: SEPARATOR_KEY_VALUE_def)
    have "split_string SEPARATOR_DICT (f @ CHR '';'' # ''level:'' @ l)
          = x # g # (gs @ split_string CHR '';'' (''level:'' @ l))"
      using sf by (simp only: SEPARATOR_DICT_def split_string_append) simp
    then have one: "Patch_from_string (f @ CHR '';'' # ''level:'' @ l) = Inl ParseError"
      using g by (rule Patch_plain_second_segment)
    have "split_string CHR '';'' (''filename:'' @ f) = (''filename:'' @ x) # g # gs"
      using sf by (intro split_string_prefix) auto
    then have "split_string SEPARATOR_DICT ((''filename:'' @ f) @ CHR '';'' # ''level:'' @ l)
          = (''filename:'' @ x) # g # (gs @ split_string CHR '';'' (''level:'' @ l))"
      by (simp only: SEPARATOR_DICT_def split_string_append) simp
    then have "Patch_from_string ((''filename:'' @ f) @ CHR '';'' # ''level:'' @ l) = Inl ParseError"
      using g by (rule Patch_plain_second_segment)
    with one show ?thesis by simp
  qed
qed

theorem Patch_shorthand_equals_explicit_witness:
  "CHR '':'' \<notin> set ''a.patch'' \<and> CHR '';'' \<notin> set ''1''
   \<and> Patch_from_string (''a.patch'' @ '';level:'' @ ''1'')
      = Patch_from_string (''filename:'' @ ''a.patch'' @ '';level:'' @ ''1'')
   \<and> Patch_from_string ''a.patch;level:1''
      = Inr [(''filename'', PStr ''a.patch''), (''level'', PInt 1)]"
proof -
  have h: "CHR '':'' \<notin> set ''a.patch'' \<and> CHR '';'' \<notin> set ''1''"
    by simp
  have e: "Patch_from_string (''a.patch'' @ '';level:'' @ ''1'')
      = Patch_from_string (''filename:'' @ ''a.patch'' @ '';level:'' @ ''1'')"
    by (rule mp [OF Patch_shorthand_equals_explicit h])
  have v: "Patch_from_string ''a.patch;level:1''
      = Inr [(''filename'', PStr ''a.patch''), (''level'', PInt 1)]"
    by code_simp
  from h have h1: "CHR '':'' \<notin> set ''a.patch''" and h2: "CHR '';'' \<notin> set ''1''"
    by simp_all
  show ?thesis
    by (intro conjI h1 h2 e v)
qed

text \<open>The claim as stated is for every filename and level value; for a filename with a
  colon the shorthand is read as a \<open>key:value\<close> segment and rejected while the explicit
  form is accepted, and a level value with a semicolon carries further segments, which
  can repeat the filename.\<close>

theorem Patch_shorthand_colon_counterexample:
  "Patch_from_string (''x:a.patch'' @ '';level:'' @ ''1'') = Inl ValidationError
   \<and> Patch_from_string (''filename:'' @ ''x:a.patch'' @ '';level:'' @ ''1'')
      = Inr [(''filename'', PStr ''x:a.patch''), (''level'', PInt 1)]
   \<and> Patch_from_string (''a.patch'' @ '';level:'' @ ''1;filename:b'') = Inl ValidationError
   \<and> Patch_from_string (''filename:'' @ ''a.patch'' @ '';level:'' @ ''1;filename:b'')
      = Inr [(''filename'', PStr ''b''), (''level'', PInt 1)]"
  by code_simp

text \<open>
  Claim C7, as amended.  A Patch string with a \<open>key:value\<close> segment whose key is none of
  filename, level, dest never parses: it fails with \<open>ValidationError\<close> when every segment
  after the first has a colon, and with \<open>ParseError\<close> otherwise (a segment without a
  colon that is not the positional filename is reported first).
\<close>

theorem Patch_unknown_key_rejected:
  "seg \<in> set (split_string SEPARATOR_DICT txt) \<and> SEPARATOR_KEY_VALUE \<in> set seg
     \<and> fst (split_key_value seg) \<notin> {''filename'', ''level'', ''dest''}
   \<longrightarrow> Patch_from_string txt
        = (if list_all (\<lambda>s. SEPARATOR_KEY_VALUE \<in> set s) (tl (split_string SEPARATOR_DICT txt))
           then Inl ValidationError else Inl ParseError)
      \<and> isl (Patch_from_string txt)"
proof (intro impI)
  assume a: "seg \<in> set (split_string SEPARATOR_DICT txt) \<and> SEPARATOR_KEY_VALUE \<in> set seg
     \<and> fst (split_key_value seg) \<notin> {''filename'', ''level'', ''dest''}"
  obtain s ss where sp: "split_string SEPARATOR_DICT txt = s # ss"
    using split_string_not_Nil [of SEPARATOR_DICT "txt"] by (cases "split_string SEPARATOR_DICT txt") auto
  have bad: "fst (split_key_value seg) \<notin> set (KEYLESS_ENTRIES @ ALLOWED_KEYS)"
    using a by (simp add: KEYLESS_ENTRIES_def ALLOWED_KEYS_def)
  have "DictOfStrings_from_string KEYLESS_ENTRIES ALLOWED_KEYS txt
        = (if list_all (\<lambda>s. SEPARATOR_KEY_VALUE \<in> set s) ss
           then Inl ValidationError else Inl ParseError)"
  proof (cases "SEPARATOR_KEY_VALUE \<in> set s")
    case True
    from a sp have "seg \<in> set (s # ss)" by simp
    then have "list_ex (\<lambda>k. k \<notin> set (KEYLESS_ENTRIES @ ALLOWED_KEYS))
                 (map fst (map split_key_value (s # ss)))"
      using bad unfolding list_ex_iff by force
    then show ?thesis
      using sp True by (simp only: base_first_keyed [OF sp True] if_True)
  next
    case False
    with a sp have "seg \<in> set ss" by auto
    then have "list_ex (\<lambda>k. k \<notin> set (KEYLESS_ENTRIES @ ALLOWED_KEYS))
                 (map fst (map split_key_value ss))"
      using bad unfolding list_ex_iff by force
    then show ?thesis
      by (simp only: base_first_plain [OF sp False] if_True)
  qed
  then have "Patch_from_string txt
        = (if list_all (\<lambda>s. SEPARATOR_KEY_VALUE \<in> set s) ss
           then Inl ValidationError else Inl ParseError)"
    by (simp add: Patch_from_string_def)
  with sp show "Patch_from_string txt
        = (if list_all (\<lambda>s. SEPARATOR_KEY_VALUE \<in> set s) (tl (split_string SEPARATOR_DICT txt))
           then Inl ValidationError else Inl ParseError)
      \<and> isl (Patch_from_string txt)"
    by simp
qed

theorem Patch_unknown_key_rejected_witness:
  "''bogus:1'' \<in> set (split_string SEPARATOR_DICT ''a.patch;bogus:1'')
   \<and> SEPARATOR_KEY_VALUE \<in> set ''bogus:1''
   \<and> fst (split_key_value ''bogus:1'') \<notin> {''filename'', ''level'', ''dest''}
   \<and> list_all (\<lambda>s. SEPARATOR_KEY_VALUE \<in> set s) (tl (split_string SEPARATOR_DICT ''a.patch;bogus:1''))
   \<and> Patch_from_string ''a.patch;bogus:1'' = Inl ValidationError"
proof -
  have h1: "''bogus:1'' \<in> set (split_string SEPARATOR_DICT ''a.patch;bogus:1'')"
    by code_simp
  have h2: "SEPARATOR_KEY_VALUE \<in> set ''bogus:1''"
    by code_simp
  have h3: "fst (split_key_value ''bogus:1'') \<notin> {''filename'', ''level'', ''dest''}"
    by code_simp
  have h4: "list_all (\<lambda>s. SEPARATOR_KEY_VALUE \<in> set s) (tl (split_string SEPARATOR_DICT ''a.patch;bogus:1''))"
    by code_simp
  have "Patch_from_string ''a.patch;bogus:1''
        = (if list_all (\<lambda>s. SEPARATOR_KEY_VALUE \<in> set s) (tl (split_string SEPARATOR_DICT ''a.patch;bogus:1''))
           then Inl ValidationError else Inl ParseError)"
    by (rule conjunct1 [OF mp [OF Patch_unknown_key_rejected conjI [OF h1 conjI [OF h2 h3]]]])
  then have r: "Patch_from_string ''a.patch;bogus:1'' = Inl ValidationError"
    by (simp only: h4 if_True)
  show ?thesis
    by (intro conjI h1 h2 h3 h4 r)
qed

text \<open>The claim as stated gives a validation error for every such string; with a
  malformed segment beside the unknown key the error is \<open>ParseError\<close>.\<close>

theorem Patch_unknown_key_counterexample:
  "''bogus:1'' \<in> set (split_string SEPARATOR_DICT ''a.patch;zzz;bogus:1'')
   \<and> fst (split_key_value ''bogus:1'') = ''bogus''
   \<and> Patch_from_string ''a.patch;zzz;bogus:1'' = Inl ParseError"
  by code_simp

text \<open>
  Claim C8, as amended.  A Patch string whose first segment is the positional filename and
  which has a later segment with the explicit key \<open>filename\<close> never parses: it fails with
  \<open>ValidationError\<close> when every segment after the first has a colon, and with
  \<open>ParseError\<close> otherwise.
\<close>

theorem Patch_duplicate_filename_rejected:
  "split_string SEPARATOR_DICT txt = s # ss \<and> SEPARATOR_KEY_VALUE \<notin> set s
     \<and> seg \<in> set ss \<and> SEPARATOR_KEY_VALUE \<in> set seg \<and> fst (split_key_value seg) = ''filename''
   \<longrightarrow> Patch_from_string txt
        = (if list_all (\<lambda>s. SEPARATOR_KEY_VALUE \<in> set s) ss
           then Inl ValidationError else Inl ParseError)
      \<and> isl (Patch_from_string txt)"
proof (intro impI)
  assume a: "split_string SEPARATOR_DICT txt = s # ss \<and> SEPARATOR_KEY_VALUE \<notin> set s
     \<and> seg \<in> set ss \<and> SEPARATOR_KEY_VALUE \<in> set seg \<and> fst (split_key_value seg) = ''filename''"
  then have sp: "split_string SEPARATOR_DICT txt = s # ss" and plain: "SEPARATOR_KEY_VALUE \<notin> set s"
    by simp_all
  from a have "list_ex (\<lambda>k. k = ''filename'') (map fst (map split_key_value ss))"
    unfolding list_ex_iff by force
  then have "DictOfStrings_from_string KEYLESS_ENTRIES ALLOWED_KEYS txt
        = (if list_all (\<lambda>s. SEPARATOR_KEY_VALUE \<in> set s) ss
           then Inl ValidationError else Inl ParseError)"
    by (simp only: base_first_plain [OF sp plain] if_True if_cancel)
  then have "Patch_from_string txt
        = (if list_all (\<lambda>s. SEPARATOR_KEY_VALUE \<in> set s) ss
           then Inl ValidationError else Inl ParseError)"
    by (simp add: Patch_from_string_def)
  then show "Patch_from_string txt
        = (if list_all (\<lambda>s. SEPARATOR_KEY_VALUE \<in> set s) ss
           then Inl ValidationError else Inl ParseError)
      \<and> isl (Patch_from_string txt)"
    by simp
qed

theorem Patch_duplicate_filename_rejected_witness:
  "split_string SEPARATOR_DICT ''a.patch;filename:b.patch'' = ''a.patch'' # [''filename:b.patch'']
   \<and> SEPARATOR_KEY_VALUE \<notin> set ''a.patch''
   \<and> ''filename:b.patch'' \<in> set [''filename:b.patch'']
   \<and> SEPARATOR_KEY_VALUE \<in> set ''filename:b.patch''
   \<and> fst (split_key_value ''filename:b.patch'') = ''filename''
   \<and> list_all (\<lambda>s. SEPARATOR_KEY_VALUE \<in> set s) [''filename:b.patch'']
   \<and> Patch_from_string ''a.patch;filename:b.patch'' = Inl ValidationError"
proof -
  have h1: "split_string SEPARATOR_DICT ''a.patch;filename:b.patch'' = ''a.patch'' # [''filename:b.patch'']"
    by code_simp
  have h2: "SEPARATOR_KEY_VALUE \<notin> set ''a.patch''"
    by code_simp
  have h3: "''filename:b.patch'' \<in> set [''filename:b.patch'']"
    by simp
  have h4: "SEPARATOR_KEY_VALUE \<in> set ''filename:b.patch''"
    by code_simp
  have h5: "fst (split_key_value ''filename:b.patch'') = ''filename''"
    by code_simp
  have h6: "list_all (\<lambda>s. SEPARATOR_KEY_VALUE \<in> set s) [''filename:b.patch'']"
    by code_simp
  have "Patch_from_string ''a.patch;filename:b.patch''
        = (if list_all (\<lambda>s. SEPARATOR_KEY_VALUE \<in> set s) [''filename:b.patch'']
           then Inl ValidationError else Inl ParseError)"
    by (rule conjunct1 [OF mp [OF Patch_duplicate_filename_rejected
          conjI [OF h1 conjI [OF h2 conjI [OF h3 conjI [OF h4 h5]]]]]])
  then have r: "Patch_from_string ''a.patch;filename:b.patch'' = Inl ValidationError"
    by (simp only: h6 if_True)
  show ?thesis
    by (intro conjI h1 h2 h3 h4 h5 h6 r)
qed

text \<open>The claim as stated gives \<open>ValidationError\<close> for every such string; with a
  malformed segment beside the duplicate the error is \<open>ParseError\<close>.\<close>

theorem Patch_duplicate_filename_counterexample:
  "split_string SEPARATOR_DICT ''a.patch;zzz;filename:b.patch''
     = [''a.patch'', ''zzz'', ''filename:b.patch'']
   \<and> fst (split_key_value ''filename:b.patch'') = ''filename''
   \<and> Patch_from_string ''a.patch;zzz;filename:b.patch'' = Inl ParseError"
  by code_simp

section \<open>Round trip: parsing the string form\<close>

lemma digit_char:
  "d < 10 \<Longrightarrow> is_digit (char_of (48 + d)) \<and> digit_val (char_of (48 + d)) = int d"
  by (simp add: is_digit_def digit_val_def)

lemma nat_digits_digits: "nat_digits n \<noteq> [] \<and> list_all is_digit (nat_digits n)"
proof (induction n rule: nat_digits.induct)
  case (1 n)
  show ?case
  proof (cases "n < 10")
    case True
    then show ?thesis by (simp add: nat_digits.simps [of n] digit_char)
  next
    case False
    with 1 show ?thesis by (simp add: nat_digits.simps [of n] digit_char)
  qed
qed

lemma nat_digits_value: "foldl (\<lambda>a c. 10 * a + digit_val c) 0 (nat_digits n) = int n"
proof (induction n rule: nat_digits.induct)
  case (1 n)
  show ?case
  proof (cases "n < 10")
    case True
    then show ?thesis by (simp add: nat_digits.simps [of n] digit_char)
  next
    case False
    with 1 have "foldl (\<lambda>a c. 10 * a + digit_val c) 0 (nat_digits n)
        = 10 * int (n div 10) + int (n mod 10)"
      by (simp add: nat_digits.simps [of n] digit_char)
    also have "\<dots> = int n"
      by (metis mult_div_mod_eq of_nat_add of_nat_mult of_nat_numeral)
    finally show ?thesis .
  qed
qed

lemma py_int_nat_digits: "py_int (nat_digits n) = Inr (int n)"
  using py_int_digits [of "nat_digits n"] nat_digits_digits [of n]
  by (simp add: nat_digits_value)

lemma py_int_py_str_int: "py_int (py_str_int n) = Inr n"
proof (cases "n < 0")
  case False
  then show ?thesis by (simp add: py_str_int_def py_int_nat_digits)
next
  case True
  let ?ds = "nat_digits (nat (- n))"
  have d: "?ds \<noteq> []" "list_all is_digit ?ds"
    using nat_digits_digits by simp_all
  then have "is_digit (last ?ds)" by (simp add: list_all_iff)
  then have "\<not> is_space (last (CHR ''-'' # ?ds))"
    using d(1) digit_not_special by simp
  moreover have "\<not> is_space CHR ''-''" by (simp add: is_space_def)
  ultimately have "py_strip (CHR ''-'' # ?ds) = CHR ''-'' # ?ds"
    by (intro py_strip_id) simp_all
  moreover have "filter is_digit ?ds = ?ds" using d(2) by (simp add: list_all_iff)
  ultimately show ?thesis
    using True d digit_groups_digits [of ?ds]
    by (simp add: py_str_int_def py_int_def digits_value_def nat_digits_value)
qed

lemma py_str_int_chars: "c \<in> set (py_str_int n) \<Longrightarrow> is_digit c \<or> c = CHR ''-''"
  using nat_digits_digits by (auto simp add: py_str_int_def list_all_iff split: if_splits)

lemma py_str_int_no_separator:
  "SEPARATOR_DICT \<notin> set (py_str_int n)" "SEPARATOR_LIST \<notin> set (py_str_int n)"
  "SEPARATOR_KEY_VALUE \<notin> set (py_str_int n)"
proof -
  have "c \<notin> set (py_str_int n)" if "\<not> is_digit c" "c \<noteq> CHR ''-''" for c
    using that py_str_int_chars by blast
  then show "SEPARATOR_DICT \<notin> set (py_str_int n)" "SEPARATOR_LIST \<notin> set (py_str_int n)"
    "SEPARATOR_KEY_VALUE \<notin> set (py_str_int n)"
    by (simp_all add: SEPARATOR_DICT_def SEPARATOR_LIST_def SEPARATOR_KEY_VALUE_def is_digit_def)
qed

lemma split_key_value_join:
  "SEPARATOR_KEY_VALUE \<notin> set k \<Longrightarrow> split_key_value (k @ SEPARATOR_KEY_VALUE # v) = (k, v)"
  by (induction k) (auto simp add: split_key_value_def)

lemma map_of_fold_update:
  "map_of (fold (\<lambda>kv. AList.update (fst kv) (g (snd kv))) kvs acc) k
   = (case map_of (rev kvs) k of None \<Rightarrow> map_of acc k | Some v \<Rightarrow> Some (g v))"
proof (induction kvs arbitrary: acc)
  case Nil
  then show ?case by simp
next
  case (Cons kv kvs)
  show ?case
    by (simp add: Cons.IH update_conv' map_add_def split: option.splits)
qed

lemma keys_fold_update:
  "fst ` set (fold (\<lambda>kv. AList.update (fst kv) (g (snd kv))) kvs acc) = fst ` set acc \<union> fst ` set kvs"
  by (induction kvs arbitrary: acc) (auto simp add: dom_update)

lemma distinct_fold_update:
  "distinct (map fst acc) \<Longrightarrow> distinct (map fst (fold (\<lambda>kv. AList.update (fst kv) (g (snd kv))) kvs acc))"
  by (induction kvs arbitrary: acc) (auto simp add: distinct_update)

lemma dict_eq_iff: "dict_eq x y \<longleftrightarrow> map_of x = map_of y"
proof
  assume e: "dict_eq x y"
  show "map_of x = map_of y"
  proof
    fix k
    show "map_of x k = map_of y k"
    proof (cases "k \<in> fst ` set x \<union> fst ` set y")
      case True
      with e show ?thesis by (auto simp add: dict_eq_def list_all_iff)
    next
      case False
      then have "map_of x k = None" "map_of y k = None"
        by (simp_all add: map_of_eq_None_iff)
      then show ?thesis by simp
    qed
  qed
next
  assume "map_of x = map_of y"
  then show "dict_eq x y" by (simp add: dict_eq_def list_all_iff)
qed

lemma map_of_rev_distinct: "distinct (map fst xs) \<Longrightarrow> map_of (rev xs) = map_of xs"
  by (subst map_of_inject_set) (simp_all add: rev_map [symmetric])

lemma map_of_str_values:
  "map_of (map (\<lambda>kv. (fst kv, f (snd kv))) xs) k = map_option f (map_of xs k)"
  by (induction xs) auto

lemma map_of_without_key:
  "map_of (filter (\<lambda>kv. fst kv \<noteq> a) xs) k = (if k = a then None else map_of xs k)"
  by (induction xs) auto

lemma valid_entry_facts:
  assumes "valid_entry (k, v)"
  shows "k = ''filename'' \<or> k = ''level'' \<or> k = ''dest''"
    and "SEPARATOR_DICT \<notin> set (py_str v)"
    and "k = ''filename'' \<Longrightarrow> SEPARATOR_KEY_VALUE \<notin> set (py_str v)"
    and "k = ''level'' \<Longrightarrow> \<exists>n. v = PInt n"
    and "k \<noteq> ''level'' \<Longrightarrow> \<exists>s. v = PStr s"
  using assms by (cases v; auto simp add: py_str_int_no_separator split: if_splits)+

lemma base_roundtrip:
  assumes v: "valid_patch x"
  shows "\<exists>res. DictOfStrings_from_string KEYLESS_ENTRIES ALLOWED_KEYS (Patch_str x) = Inr res
          \<and> (\<forall>k. map_of res k = map_option (\<lambda>w. PStr (py_str w)) (map_of x k))"
proof -
  define R where "R = filter (\<lambda>kv. fst kv \<noteq> ''filename'') x"
  define K where "K = map (\<lambda>kv. fst kv @ SEPARATOR_KEY_VALUE # py_str (snd kv)) R"
  define R2 where "R2 = map (\<lambda>kv. (fst kv, py_str (snd kv))) R"
  define F where "F = (case map_of x ''filename'' of None \<Rightarrow> [] | Some w \<Rightarrow> [py_str w])"
  have str: "Patch_str x = join_string SEPARATOR_DICT (F @ K)"
    by (simp add: Patch_str_def DictOfStrings_str_def KEYLESS_ENTRIES_def F_def K_def R_def)
  have ent: "valid_entry (k, w)" if "(k, w) \<in> set x" for k w
    using v that by (auto simp add: valid_patch_def list_all_iff)
  have dx: "distinct (map fst x)" and nx: "x \<noteq> []"
    using v by (simp_all add: valid_patch_def)
  have Rkeys: "fst kv = ''level'' \<or> fst kv = ''dest''" if "kv \<in> set R" for kv
    using that ent [of "fst kv" "snd kv"] valid_entry_facts(1) [of "fst kv" "snd kv"]
    by (auto simp add: R_def)
  have Rvals: "SEPARATOR_DICT \<notin> set (py_str (snd kv))" if "kv \<in> set R" for kv
    using that ent [of "fst kv" "snd kv"] valid_entry_facts(2) [of "fst kv" "snd kv"]
    by (auto simp add: R_def)
  have keycolon: "SEPARATOR_KEY_VALUE \<notin> set (fst kv)" and keysemi: "SEPARATOR_DICT \<notin> set (fst kv)"
    if "kv \<in> set R" for kv
    using Rkeys [OF that] by (auto simp add: SEPARATOR_KEY_VALUE_def SEPARATOR_DICT_def)
  have Kcolon: "list_all (\<lambda>s. SEPARATOR_KEY_VALUE \<in> set s) K"
    by (simp add: K_def list_all_iff)
  have Ksemi: "SEPARATOR_DICT \<notin> set seg" if "seg \<in> set K" for seg
    using that Rvals keysemi
    by (auto simp add: K_def SEPARATOR_KEY_VALUE_def SEPARATOR_DICT_def)
  have skv: "map split_key_value K = R2"
    using keycolon by (simp add: K_def R2_def split_key_value_join)
  have keysR2: "map fst R2 = map fst R"
    by (simp add: R2_def comp_def)
  have ok1: "\<not> list_ex (\<lambda>k. k \<notin> set (KEYLESS_ENTRIES @ ALLOWED_KEYS)) (map fst R2)"
    using Rkeys by (auto simp add: keysR2 list_ex_iff KEYLESS_ENTRIES_def ALLOWED_KEYS_def)
  have ok2: "\<not> list_ex (\<lambda>k. k = ''filename'') (map fst R2)"
    using Rkeys by (fastforce simp add: keysR2 list_ex_iff)
  have dist: "distinct (map fst R2)"
    using dx by (simp add: keysR2 R_def distinct_map_filter)
  have nofile: "''filename'' \<notin> fst ` set R2"
    using ok2 by (auto simp add: list_ex_iff)
  have mR2: "map_of R2 k = (if k = ''filename'' then None else map_option py_str (map_of x k))" for k
    by (simp add: R2_def R_def map_of_str_values map_of_without_key)
  show ?thesis
  proof (cases "map_of x ''filename''")
    case None
    then have F: "F = []" by (simp add: F_def)
    have "R = x"
      using None by (force simp add: R_def map_of_eq_None_iff filter_id_conv)
    with nx have "K \<noteq> []" by (simp add: K_def)
    then obtain s ss where K: "K = s # ss" by (cases K) auto
    have sp: "split_string SEPARATOR_DICT (Patch_str x) = s # ss"
      using split_join [of K SEPARATOR_DICT] Ksemi \<open>K \<noteq> []\<close> by (simp add: str F K)
    have scolon: "SEPARATOR_KEY_VALUE \<in> set s"
      using Kcolon by (simp add: K)
    have sscolon: "list_all (\<lambda>s. SEPARATOR_KEY_VALUE \<in> set s) ss"
      using Kcolon by (simp add: K)
    have skv2: "map split_key_value (s # ss) = R2"
      using skv by (simp only: K)
    have base: "DictOfStrings_from_string KEYLESS_ENTRIES ALLOWED_KEYS (Patch_str x)
        = Inr (fold (\<lambda>kv. AList.update (fst kv) (PStr (snd kv))) R2 [])"
      using ok1 by (simp only: base_first_keyed [OF sp scolon] sscolon skv2 if_True if_False)
    have "map_of (fold (\<lambda>kv. AList.update (fst kv) (PStr (snd kv))) R2 []) k
        = map_option (\<lambda>w. PStr (py_str w)) (map_of x k)" for k
      using None
      by (simp add: map_of_fold_update map_of_rev_distinct [OF dist] mR2 option.map_comp comp_def
          split: option.splits)
    with base show ?thesis by blast
  next
    case (Some w)
    then have "(''filename'', w) \<in> set x" by (rule map_of_SomeD)
    then have ve: "valid_entry (''filename'', w)" by (rule ent)
    then obtain f where w: "w = PStr f"
      using valid_entry_facts(5) [OF ve] by auto
    have fsemi: "SEPARATOR_DICT \<notin> set f" and fcolon: "SEPARATOR_KEY_VALUE \<notin> set f"
      using ve by (simp_all add: w)
    have F: "F = [f]" by (simp add: F_def Some w)
    have sp: "split_string SEPARATOR_DICT (Patch_str x) = f # K"
      using split_join [of "f # K" SEPARATOR_DICT] Ksemi fsemi by (auto simp add: str F)
    have skv3: "map fst (map split_key_value K) = map fst R2"
      by (simp only: skv)
    have base: "DictOfStrings_from_string KEYLESS_ENTRIES ALLOWED_KEYS (Patch_str x)
        = Inr (fold (\<lambda>kv. AList.update (fst kv) (PStr (snd kv))) ((''filename'', f) # R2) [])"
      using ok1 ok2 by (simp only: base_first_plain [OF sp fcolon] Kcolon skv3 skv if_True if_False)
    have d2: "distinct (map fst ((''filename'', f) # R2))"
      using dist nofile by simp
    have "map_of (fold (\<lambda>kv. AList.update (fst kv) (PStr (snd kv))) ((''filename'', f) # R2) []) k
        = map_option (\<lambda>w. PStr (py_str w)) (map_of x k)" for k
    proof -
      have "map_of (fold (\<lambda>kv. AList.update (fst kv) (PStr (snd kv))) ((''filename'', f) # R2) []) k
          = (case map_of ((''filename'', f) # R2) k of None \<Rightarrow> map_of [] k | Some v \<Rightarrow> Some (PStr v))"
        by (simp only: map_of_fold_update map_of_rev_distinct [OF d2])
      also have "\<dots> = map_option (\<lambda>w. PStr (py_str w)) (map_of x k)"
        using Some
        by (simp add: mR2 w option.map_comp comp_def split: option.splits)
      finally show ?thesis .
    qed
    with base show ?thesis by blast
  qed
qed

lemma Patch_roundtrip:
  assumes v: "valid_patch x"
  shows "\<exists>y. Patch_from_string (Patch_str x) = Inr y \<and> dict_eq y x"
proof -
  obtain res where base: "DictOfStrings_from_string KEYLESS_ENTRIES ALLOWED_KEYS (Patch_str x) = Inr res"
    and m: "\<And>k. map_of res k = map_option (\<lambda>w. PStr (py_str w)) (map_of x k)"
    using base_roundtrip [OF v] by blast
  have ent: "valid_entry (k, w)" if "map_of x k = Some w" for k w
    using v map_of_SomeD [OF that] by (auto simp add: valid_patch_def list_all_iff)
  have strs: "map_of res k = map_of x k" if kl: "k \<noteq> ''level''" for k
  proof (cases "map_of x k")
    case None
    then show ?thesis by (simp add: m)
  next
    case (Some w)
    then obtain s where "w = PStr s"
      using valid_entry_facts(5) [OF ent [OF Some] kl] by auto
    with Some show ?thesis by (simp add: m)
  qed
  show ?thesis
  proof (cases "map_of x ''level''")
    case None
    then have "map_of res ''level'' = None" by (simp add: m)
    then have "Patch_from_string (Patch_str x) = Inr res"
      by (simp add: Patch_from_string_def base)
    moreover have "map_of res k = map_of x k" for k
      using None strs [of k] by (cases "k = ''level''") (simp_all add: m)
    ultimately show ?thesis by (auto simp add: dict_eq_iff)
  next
    case (Some w)
    then obtain n where w: "w = PInt n"
      using valid_entry_facts(4) [OF ent [OF Some]] by auto
    then have "map_of res ''level'' = Some (PStr (py_str_int n))"
      using Some by (simp add: m)
    then have p: "Patch_from_string (Patch_str x) = Inr (AList.update ''level'' (PInt n) res)"
      by (simp add: Patch_from_string_def base py_int_py_str_int)
    have "map_of (AList.update ''level'' (PInt n) res) k = map_of x k" for k
      using Some w strs [of k] by (simp add: update_conv')
    with p show ?thesis by (auto simp add: dict_eq_iff)
  qed
qed

lemma split_key_value_chars: "set (snd (split_key_value seg)) \<subseteq> set seg"
proof -
  have "set (drop 1 (dropWhile (\<lambda>c. c \<noteq> SEPARATOR_KEY_VALUE) seg))
        \<subseteq> set (dropWhile (\<lambda>c. c \<noteq> SEPARATOR_KEY_VALUE) seg)"
    by (rule set_drop_subset)
  also have "\<dots> \<subseteq> set seg"
    by (auto dest: set_dropWhileD)
  finally show ?thesis by (simp add: split_key_value_def)
qed

text \<open>The dictionary of the base parser is filled from a non-empty list of pairs with
  allowed keys, whose values are pieces of segments of the input.\<close>

lemma base_result_form:
  assumes "DictOfStrings_from_string KEYLESS_ENTRIES ALLOWED_KEYS s = Inr res"
  shows "\<exists>L. L \<noteq> [] \<and> res = fold (\<lambda>kv. AList.update (fst kv) (PStr (snd kv))) L []
          \<and> (\<forall>kv \<in> set L. (fst kv = ''filename'' \<or> fst kv = ''level'' \<or> fst kv = ''dest'')
                \<and> SEPARATOR_DICT \<notin> set (snd kv) \<and> set (snd kv) \<subseteq> set s)"
proof -
  obtain s0 ss where sp: "split_string SEPARATOR_DICT s = s0 # ss"
    using split_string_not_Nil [of SEPARATOR_DICT s] by (cases "split_string SEPARATOR_DICT s") auto
  have seg: "SEPARATOR_DICT \<notin> set g \<and> set g \<subseteq> set s" if "g \<in> set (s0 # ss)" for g
    using that split_string_segments [of g SEPARATOR_DICT s] by (simp add: sp)
  have val: "SEPARATOR_DICT \<notin> set (snd (split_key_value g)) \<and> set (snd (split_key_value g)) \<subseteq> set s"
    if "g \<in> set (s0 # ss)" for g
    using seg [OF that] split_key_value_chars [of g] by auto
  show ?thesis
  proof (cases "SEPARATOR_KEY_VALUE \<in> set s0")
    case True
    let ?L = "map split_key_value (s0 # ss)"
    from assms have ok: "\<not> list_ex (\<lambda>k. k \<notin> set (KEYLESS_ENTRIES @ ALLOWED_KEYS)) (map fst ?L)"
      and res: "res = fold (\<lambda>kv. AList.update (fst kv) (PStr (snd kv))) ?L []"
      by (auto simp only: base_first_keyed [OF sp True] split: if_splits)
    have "\<forall>kv \<in> set ?L. (fst kv = ''filename'' \<or> fst kv = ''level'' \<or> fst kv = ''dest'')
                \<and> SEPARATOR_DICT \<notin> set (snd kv) \<and> set (snd kv) \<subseteq> set s"
    proof
      fix kv assume "kv \<in> set ?L"
      then obtain g where g: "g \<in> set (s0 # ss)" and kv: "kv = split_key_value g" by auto
      from ok g have "fst kv = ''filename'' \<or> fst kv = ''level'' \<or> fst kv = ''dest''"
        by (auto simp add: kv list_ex_iff KEYLESS_ENTRIES_def ALLOWED_KEYS_def)
      with val [OF g] show "(fst kv = ''filename'' \<or> fst kv = ''level'' \<or> fst kv = ''dest'')
                \<and> SEPARATOR_DICT \<notin> set (snd kv) \<and> set (snd kv) \<subseteq> set s"
        by (simp add: kv)
    qed
    with res show ?thesis by blast
  next
    case False
    let ?L = "(''filename'', s0) # map split_key_value ss"
    from assms have ok: "\<not> list_ex (\<lambda>k. k \<notin> set (KEYLESS_ENTRIES @ ALLOWED_KEYS))
                           (map fst (map split_key_value ss))"
      and res: "res = fold (\<lambda>kv. AList.update (fst kv) (PStr (snd kv))) ?L []"
      by (auto simp only: base_first_plain [OF sp False] split: if_splits)
    have "\<forall>kv \<in> set ?L. (fst kv = ''filename'' \<or> fst kv = ''level'' \<or> fst kv = ''dest'')
                \<and> SEPARATOR_DICT \<notin> set (snd kv) \<and> set (snd kv) \<subseteq> set s"
    proof
      fix kv assume "kv \<in> set ?L"
      then consider "kv = (''filename'', s0)"
        | g where "g \<in> set ss" "kv = split_key_value g" by auto
      then show "(fst kv = ''filename'' \<or> fst kv = ''level'' \<or> fst kv = ''dest'')
                \<and> SEPARATOR_DICT \<notin> set (snd kv) \<and> set (snd kv) \<subseteq> set s"
      proof cases
        case 1
        then show ?thesis using seg [of s0] by simp
      next
        case 2
        from ok 2 have "fst kv = ''filename'' \<or> fst kv = ''level'' \<or> fst kv = ''dest''"
          by (auto simp add: list_ex_iff KEYLESS_ENTRIES_def ALLOWED_KEYS_def)
        with val [of g] 2 show ?thesis by simp
      qed
    qed
    with res show ?thesis by blast
  qed
qed

lemma base_result_entries:
  assumes "DictOfStrings_from_string KEYLESS_ENTRIES ALLOWED_KEYS s = Inr res"
  shows "res \<noteq> []" and "distinct (map fst res)"
    and "map_of res k = Some w \<Longrightarrow>
           (k = ''filename'' \<or> k = ''level'' \<or> k = ''dest'')
           \<and> (\<exists>v. w = PStr v \<and> SEPARATOR_DICT \<notin> set v \<and> set v \<subseteq> set s)"
proof -
  obtain L where L: "L \<noteq> []"
    and res: "res = fold (\<lambda>kv. AList.update (fst kv) (PStr (snd kv))) L []"
    and ent: "\<And>kv. kv \<in> set L \<Longrightarrow> (fst kv = ''filename'' \<or> fst kv = ''level'' \<or> fst kv = ''dest'')
                \<and> SEPARATOR_DICT \<notin> set (snd kv) \<and> set (snd kv) \<subseteq> set s"
    using base_result_form [OF assms] by blast
  have "fst ` set res = fst ` set L"
    by (simp add: res keys_fold_update)
  with L show "res \<noteq> []" by auto
  show "distinct (map fst res)"
    by (simp add: res distinct_fold_update)
  show "(k = ''filename'' \<or> k = ''level'' \<or> k = ''dest'')
           \<and> (\<exists>v. w = PStr v \<and> SEPARATOR_DICT \<notin> set v \<and> set v \<subseteq> set s)"
    if "map_of res k = Some w"
  proof -
    from that obtain v where v: "map_of (rev L) k = Some v" and w: "w = PStr v"
      by (auto simp add: res map_of_fold_update split: option.splits)
    from v have "(k, v) \<in> set L" using map_of_SomeD by fastforce
    with ent [of "(k, v)"] w show ?thesis by simp
  qed
qed

lemma Patch_result_cases:
  assumes "Patch_from_string s = Inr x"
  obtains res where "DictOfStrings_from_string KEYLESS_ENTRIES ALLOWED_KEYS s = Inr res"
      "map_of res ''level'' = None" "x = res"
  | res lv n where "DictOfStrings_from_string KEYLESS_ENTRIES ALLOWED_KEYS s = Inr res"
      "map_of res ''level'' = Some lv" "x = AList.update ''level'' (PInt n) res"
  using assms by (auto simp add: Patch_from_string_def split: sum.splits option.splits)

lemma Patch_result_entries:
  assumes "Patch_from_string s = Inr x"
  shows "x \<noteq> []" and "distinct (map fst x)"
    and "map_of x k = Some w \<Longrightarrow>
           (k = ''level'' \<and> (\<exists>n. w = PInt n))
           \<or> ((k = ''filename'' \<or> k = ''dest'')
               \<and> (\<exists>v. w = PStr v \<and> SEPARATOR_DICT \<notin> set v \<and> set v \<subseteq> set s))"
proof -
  from assms show "x \<noteq> []"
  proof (cases rule: Patch_result_cases)
    case (1 res)
    then show ?thesis using base_result_entries(1) by blast
  next
    case (2 res lv n)
    have "fst ` set x \<noteq> {}" by (simp add: 2(3) dom_update)
    then show ?thesis by auto
  qed
  from assms show "distinct (map fst x)"
    by (cases rule: Patch_result_cases) (auto simp add: base_result_entries(2) distinct_update)
  show "(k = ''level'' \<and> (\<exists>n. w = PInt n))
           \<or> ((k = ''filename'' \<or> k = ''dest'')
               \<and> (\<exists>v. w = PStr v \<and> SEPARATOR_DICT \<notin> set v \<and> set v \<subseteq> set s))"
    if m: "map_of x k = Some w"
    using assms
  proof (cases rule: Patch_result_cases)
    case (1 res)
    with m have "k \<noteq> ''level''" by auto
    with m 1 base_result_entries(3) [OF 1(1), of k w] show ?thesis by auto
  next
    case (2 res lv n)
    show ?thesis
    proof (cases "k = ''level''")
      case True
      with m 2 show ?thesis by (auto simp add: update_conv')
    next
      case False
      with m 2 have "map_of res k = Some w" by (simp add: update_conv')
      with False base_result_entries(3) [OF 2(1), of k w] show ?thesis by auto
    qed
  qed
qed

lemma Patch_result_valid:
  assumes p: "Patch_from_string s = Inr x"
    and f: "\<And>v. map_of x ''filename'' = Some (PStr v) \<Longrightarrow> SEPARATOR_KEY_VALUE \<notin> set v"
  shows "valid_patch x"
proof -
  have d: "distinct (map fst x)" by (rule Patch_result_entries(2) [OF p])
  have "valid_entry kv" if "kv \<in> set x" for kv
  proof -
    obtain k w where kv: "kv = (k, w)" by (cases kv)
    with that d have m: "map_of x k = Some w" by simp
    from Patch_result_entries(3) [OF p m] f m show ?thesis
      by (auto simp add: kv)
  qed
  then show ?thesis
    using Patch_result_entries(1) [OF p] d by (simp add: valid_patch_def list_all_iff)
qed

lemma Patch_result_comma_free:
  assumes p: "Patch_from_string s = Inr x" and c: "SEPARATOR_LIST \<notin> set s"
  shows "comma_free x"
proof -
  have d: "distinct (map fst x)" by (rule Patch_result_entries(2) [OF p])
  have "SEPARATOR_LIST \<notin> set (py_str (snd kv))" if "kv \<in> set x" for kv
  proof -
    obtain k w where kv: "kv = (k, w)" by (cases kv)
    with that d have m: "map_of x k = Some w" by simp
    from Patch_result_entries(3) [OF p m] c show ?thesis
      by (auto simp add: kv py_str_int_no_separator)
  qed
  then show ?thesis by (simp add: comma_free_def list_all_iff)
qed

lemma join_string_chars:
  "c \<in> set (join_string sep segs) \<Longrightarrow> c = sep \<or> (\<exists>s \<in> set segs. c \<in> set s)"
  by (induction sep segs rule: join_string.induct) auto

lemma Patch_str_comma_free:
  assumes "comma_free x" and v: "valid_patch x"
  shows "SEPARATOR_LIST \<notin> set (Patch_str x)"
proof
  assume "SEPARATOR_LIST \<in> set (Patch_str x)"
  then consider w where "map_of x ''filename'' = Some w" "SEPARATOR_LIST \<in> set (py_str w)"
    | kv where "kv \<in> set x" "SEPARATOR_LIST \<in> set (fst kv @ SEPARATOR_KEY_VALUE # py_str (snd kv))"
      "fst kv \<noteq> ''filename''"
    by (auto simp add: Patch_str_def DictOfStrings_str_def KEYLESS_ENTRIES_def
        SEPARATOR_LIST_def SEPARATOR_DICT_def
        dest!: join_string_chars split: option.splits)
  then show False
  proof cases
    case 1
    then have "(''filename'', w) \<in> set x" by (simp add: map_of_SomeD)
    with 1 assms show False by (auto simp add: comma_free_def list_all_iff)
  next
    case 2
    show False
    proof (cases "SEPARATOR_LIST \<in> set (py_str (snd kv))")
      case True
      with 2 assms show False by (auto simp add: comma_free_def list_all_iff)
    next
      case False
      with 2 have c: "SEPARATOR_LIST \<in> set (fst kv)"
        by (auto simp add: SEPARATOR_LIST_def SEPARATOR_KEY_VALUE_def)
      from v 2 have "valid_entry (fst kv, snd kv)"
        by (simp add: valid_patch_def list_all_iff)
      from valid_entry_facts(1) [OF this] c show False
        by (auto simp add: SEPARATOR_LIST_def)
    qed
  qed
qed

lemma Patch_each_roundtrip:
  "list_all valid_patch xs
   \<Longrightarrow> \<exists>ys. Patch_each (map Patch_str xs) = Inr ys \<and> list_all2 dict_eq ys xs"
proof (induction xs)
  case Nil
  then show ?case by simp
next
  case (Cons x xs)
  then obtain ys where ys: "Patch_each (map Patch_str xs) = Inr ys" "list_all2 dict_eq ys xs"
    by auto
  from Cons.prems obtain y where y: "Patch_from_string (Patch_str x) = Inr y" "dict_eq y x"
    using Patch_roundtrip [of x] by auto
  from ys y show ?case by simp
qed

lemma Patches_roundtrip:
  assumes "valid_patches xs"
  shows "\<exists>ys. Patches_from_string (Patches_str xs) = Inr ys \<and> list_all2 dict_eq ys xs"
proof -
  from assms have ne: "map Patch_str xs \<noteq> []" and vs: "list_all valid_patch xs"
    and cf: "list_all comma_free xs"
    by (simp_all add: valid_patches_def)
  have "\<forall>s \<in> set (map Patch_str xs). SEPARATOR_LIST \<notin> set s"
    using vs cf by (auto simp add: list_all_iff Patch_str_comma_free)
  with ne have "split_string SEPARATOR_LIST (join_string SEPARATOR_LIST (map Patch_str xs))
      = map Patch_str xs"
    by (rule split_join)
  then have "Patches_from_string (Patches_str xs) = Patch_each (map Patch_str xs)"
    by (simp add: Patches_from_string_def Patches_str_def ListOfStrings_from_string_def
        ListOfStrings_str_def)
  with Patch_each_roundtrip [OF vs] show ?thesis by simp
qed

lemma plain_filename_iff:
  "plain_filename x \<longleftrightarrow> (\<forall>v. map_of x ''filename'' = Some (PStr v) \<longrightarrow> SEPARATOR_KEY_VALUE \<notin> set v)"
  if "Patch_from_string s = Inr x"
proof -
  have "\<exists>v. w = PStr v" if "map_of x ''filename'' = Some w" for w
    using Patch_result_entries(3) [OF \<open>Patch_from_string s = Inr x\<close> that] by auto
  then show ?thesis
    by (auto simp add: plain_filename_def split: option.splits)
qed

lemma Patch_parse_valid:
  assumes "Patch_from_string s = Inr x" and "plain_filename x"
  shows "valid_patch x"
  using assms Patch_result_valid [of s x] plain_filename_iff [of s x] by blast

lemma Patch_each_valid:
  "Patch_each segs = Inr xs \<Longrightarrow> list_all plain_filename xs
   \<Longrightarrow> \<forall>g \<in> set segs. SEPARATOR_LIST \<notin> set g
   \<Longrightarrow> list_all valid_patch xs \<and> list_all comma_free xs \<and> length xs = length segs"
proof (induction segs arbitrary: xs)
  case Nil
  then show ?case by simp
next
  case (Cons g segs)
  from Cons.prems(1) obtain p ps where p: "Patch_from_string g = Inr p"
    and ps: "Patch_each segs = Inr ps" and xs: "xs = p # ps"
    by (auto split: sum.splits)
  from Cons.prems(2) xs have pf: "plain_filename p" and pfs: "list_all plain_filename ps"
    by simp_all
  from Cons.prems(3) have c: "SEPARATOR_LIST \<notin> set g" and cs: "\<forall>g \<in> set segs. SEPARATOR_LIST \<notin> set g"
    by simp_all
  from Cons.IH [OF ps pfs cs] Patch_parse_valid [OF p pf] Patch_result_comma_free [OF p c] xs
  show ?case by simp
qed

lemma Patches_parse_valid:
  assumes "Patches_from_string s = Inr xs" and "list_all plain_filename xs"
  shows "valid_patches xs"
proof -
  let ?segs = "split_string SEPARATOR_LIST s"
  from assms(1) have e: "Patch_each ?segs = Inr xs"
    by (simp add: Patches_from_string_def ListOfStrings_from_string_def)
  have "\<forall>g \<in> set ?segs. SEPARATOR_LIST \<notin> set g"
    using split_string_segments by blast
  from Patch_each_valid [OF e assms(2) this] split_string_not_Nil [of SEPARATOR_LIST s]
  show ?thesis by (auto simp add: valid_patches_def)
qed

lemma Dependency_roundtrip:
  assumes p: "Dependency_from_string vp tp s = Inr d" and r: "external_roundtrip vp tp sv st d"
  shows "\<exists>str. Dependency_str sv st d = Inr str \<and> Dependency_from_string vp tp str = Inr d"
proof -
  from p consider v where "d = [(''versop'', Versop v)]"
    | v t where "d = [(''versop'', Versop v), (''tc_versop'', TcVersop t)]"
    by (auto simp add: Dependency_from_string_def Let_def split: if_splits sum.splits)
  then show ?thesis
  proof cases
    case 1
    with r have "vp (sv v) = Inr v" "SEPARATOR_DEP \<notin> set (sv v)"
      by (simp_all add: external_roundtrip_def)
    then show ?thesis
      by (simp add: 1 Dependency_str_def Dependency_from_string_def split_string_no_sep)
  next
    case 2
    with r have "vp (sv v) = Inr v" "SEPARATOR_DEP \<notin> set (sv v)"
      "tp (st t) = Inr t" "SEPARATOR_DEP \<notin> set (st t)"
      by (simp_all add: external_roundtrip_def)
    then show ?thesis
      by (simp add: 2 Dependency_str_def Dependency_from_string_def split_string_append
          split_string_no_sep)
  qed
qed

text \<open>
  Claim C1, as amended.  Parsing the string form of a value gives an equal value back
  (equal as dictionaries, whatever the order of the keys; for Patches element by element):
  \<^item> for every valid Patch value, and every result of \<open>Patch._from_string\<close> whose
    filename has no colon is a valid Patch value;
  \<^item> for every valid Patches value, and every result of \<open>Patches._from_string\<close> whose
    filenames have no colon is a valid Patches value;
  \<^item> for every result of \<open>Dependency._from_string\<close>, provided each version operator it
    holds is parsed back from its own string form by the external parser and that string
    form has no semicolon.
\<close>

theorem parse_serialize_roundtrip:
  "(valid_patch x \<longrightarrow> (\<exists>y. Patch_from_string (Patch_str x) = Inr y \<and> dict_eq y x))
   \<and> (Patch_from_string s = Inr x \<and> plain_filename x \<longrightarrow> valid_patch x)
   \<and> (valid_patches xs
        \<longrightarrow> (\<exists>ys. Patches_from_string (Patches_str xs) = Inr ys \<and> list_all2 dict_eq ys xs))
   \<and> (Patches_from_string s = Inr xs \<and> list_all plain_filename xs \<longrightarrow> valid_patches xs)
   \<and> (Dependency_from_string vp tp s = Inr d \<and> external_roundtrip vp tp sv st d
        \<longrightarrow> (\<exists>str. Dependency_str sv st d = Inr str \<and> Dependency_from_string vp tp str = Inr d))"
proof -
  have patch: "valid_patch x \<longrightarrow> (\<exists>y. Patch_from_string (Patch_str x) = Inr y \<and> dict_eq y x)"
    using Patch_roundtrip by blast
  have patch_valid: "Patch_from_string s = Inr x \<and> plain_filename x \<longrightarrow> valid_patch x"
    using Patch_parse_valid by blast
  have patches: "valid_patches xs
        \<longrightarrow> (\<exists>ys. Patches_from_string (Patches_str xs) = Inr ys \<and> list_all2 dict_eq ys xs)"
    using Patches_roundtrip by blast
  have patches_valid: "Patches_from_string s = Inr xs \<and> list_all plain_filename xs \<longrightarrow> valid_patches xs"
    using Patches_parse_valid by blast
  have dep: "Dependency_from_string vp tp s = Inr d \<and> external_roundtrip vp tp sv st d
        \<longrightarrow> (\<exists>str. Dependency_str sv st d = Inr str \<and> Dependency_from_string vp tp str = Inr d)"
    using Dependency_roundtrip by blast
  show ?thesis
    by (intro conjI patch patch_valid patches patches_valid dep)
qed

theorem parse_serialize_roundtrip_witness:
  "valid_patch [(''filename'', PStr ''a.patch''), (''level'', PInt 1)]
   \<and> (\<exists>y. Patch_from_string (Patch_str [(''filename'', PStr ''a.patch''), (''level'', PInt 1)]) = Inr y
          \<and> dict_eq y [(''filename'', PStr ''a.patch''), (''level'', PInt 1)])
   \<and> Patch_from_string ''level: +1;filename:a.patch''
        = Inr [(''level'', PInt 1), (''filename'', PStr ''a.patch'')]
   \<and> plain_filename [(''level'', PInt 1), (''filename'', PStr ''a.patch'')]
   \<and> valid_patch [(''level'', PInt 1), (''filename'', PStr ''a.patch'')]
   \<and> Patch_str [(''level'', PInt 1), (''filename'', PStr ''a.patch'')] = ''a.patch;level:1''
   \<and> Patches_from_string ''a.patch,b.patch;level:1''
        = Inr [[(''filename'', PStr ''a.patch'')],
               [(''filename'', PStr ''b.patch''), (''level'', PInt 1)]]
   \<and> list_all plain_filename
        [[(''filename'', PStr ''a.patch'')], [(''filename'', PStr ''b.patch''), (''level'', PInt 1)]]
   \<and> valid_patches
        [[(''filename'', PStr ''a.patch'')], [(''filename'', PStr ''b.patch''), (''level'', PInt 1)]]
   \<and> (\<exists>ys. Patches_from_string (Patches_str
              [[(''filename'', PStr ''a.patch'')], [(''filename'', PStr ''b.patch''), (''level'', PInt 1)]])
             = Inr ys
          \<and> list_all2 dict_eq ys
              [[(''filename'', PStr ''a.patch'')], [(''filename'', PStr ''b.patch''), (''level'', PInt 1)]])
   \<and> Dependency_from_string keep_text keep_text ''1.2.3;>=2020a''
        = Inr [(''versop'', Versop ''1.2.3''), (''tc_versop'', TcVersop ''>=2020a'')]
   \<and> external_roundtrip keep_text keep_text text_of text_of
        [(''versop'', Versop ''1.2.3''), (''tc_versop'', TcVersop ''>=2020a'')]
   \<and> (\<exists>str. Dependency_str text_of text_of
                [(''versop'', Versop ''1.2.3''), (''tc_versop'', TcVersop ''>=2020a'')] = Inr str
          \<and> Dependency_from_string keep_text keep_text str
              = Inr [(''versop'', Versop ''1.2.3''), (''tc_versop'', TcVersop ''>=2020a'')])"
proof -
  have v1: "valid_patch [(''filename'', PStr ''a.patch''), (''level'', PInt 1)]"
    by code_simp
  have r1: "\<exists>y. Patch_from_string (Patch_str [(''filename'', PStr ''a.patch''), (''level'', PInt 1)]) = Inr y
          \<and> dict_eq y [(''filename'', PStr ''a.patch''), (''level'', PInt 1)]"
    by (rule mp [OF conjunct1 [OF parse_serialize_roundtrip] v1])
  have p2: "Patch_from_string ''level: +1;filename:a.patch''
        = Inr [(''level'', PInt 1), (''filename'', PStr ''a.patch'')]"
    by code_simp
  have f2: "plain_filename [(''level'', PInt 1), (''filename'', PStr ''a.patch'')]"
    by code_simp
  have v2: "valid_patch [(''level'', PInt 1), (''filename'', PStr ''a.patch'')]"
    by (rule mp [OF conjunct1 [OF conjunct2 [OF parse_serialize_roundtrip]] conjI [OF p2 f2]])
  have s2: "Patch_str [(''level'', PInt 1), (''filename'', PStr ''a.patch'')] = ''a.patch;level:1''"
    by code_simp
  have p3: "Patches_from_string ''a.patch,b.patch;level:1''
        = Inr [[(''filename'', PStr ''a.patch'')],
               [(''filename'', PStr ''b.patch''), (''level'', PInt 1)]]"
    by code_simp
  have f3: "list_all plain_filename
        [[(''filename'', PStr ''a.patch'')], [(''filename'', PStr ''b.patch''), (''level'', PInt 1)]]"
    by code_simp
  have v3: "valid_patches
        [[(''filename'', PStr ''a.patch'')], [(''filename'', PStr ''b.patch''), (''level'', PInt 1)]]"
    by (rule mp [OF conjunct1 [OF conjunct2 [OF conjunct2 [OF conjunct2
          [OF parse_serialize_roundtrip]]]] conjI [OF p3 f3]])
  have r3: "\<exists>ys. Patches_from_string (Patches_str
              [[(''filename'', PStr ''a.patch'')], [(''filename'', PStr ''b.patch''), (''level'', PInt 1)]])
             = Inr ys
          \<and> list_all2 dict_eq ys
              [[(''filename'', PStr ''a.patch'')], [(''filename'', PStr ''b.patch''), (''level'', PInt 1)]]"
    by (rule mp [OF conjunct1 [OF conjunct2 [OF conjunct2 [OF parse_serialize_roundtrip]]] v3])
  have p4: "Dependency_from_string keep_text keep_text ''1.2.3;>=2020a''
        = Inr [(''versop'', Versop ''1.2.3''), (''tc_versop'', TcVersop ''>=2020a'')]"
    by code_simp
  have e4: "external_roundtrip keep_text keep_text text_of text_of
        [(''versop'', Versop ''1.2.3''), (''tc_versop'', TcVersop ''>=2020a'')]"
    by code_simp
  have r4: "\<exists>str. Dependency_str text_of text_of
                [(''versop'', Versop ''1.2.3''), (''tc_versop'', TcVersop ''>=2020a'')] = Inr str
          \<and> Dependency_from_string keep_text keep_text str
              = Inr [(''versop'', Versop ''1.2.3''), (''tc_versop'', TcVersop ''>=2020a'')]"
    by (rule mp [OF conjunct2 [OF conjunct2 [OF conjunct2 [OF conjunct2
          [OF parse_serialize_roundtrip]]]] conjI [OF p4 e4]])
  show ?thesis
    by (intro conjI v1 r1 p2 f2 v2 s2 p3 f3 v3 r3 p4 e4 r4)
qed

text \<open>The claim as stated is for every valid value; the value parsed from
  \<open>filename:a:b\<close> is written \<open>a:b\<close>, which is read as the key \<open>a\<close> and rejected.\<close>

theorem roundtrip_filename_colon_counterexample:
  "Patch_from_string ''filename:a:b'' = Inr [(''filename'', PStr ''a:b'')]
   \<and> Patch_str [(''filename'', PStr ''a:b'')] = ''a:b''
   \<and> Patch_from_string (Patch_str [(''filename'', PStr ''a:b'')]) = Inl ValidationError"
  by code_simp

end
